theory Spec2Isabelle
  imports Complex_Main "HOL-Library.Word"
begin

section \<open>JavaScript values used by the vault\<close>

text \<open>
  A JavaScript string is a sequence of 16-bit code units, a \<open>Uint8Array\<close> a sequence of
  bytes. Numbers are the integer-valued ones the program handles (counters and
  millisecond timestamps), modelled as \<open>int\<close>; all of them stay far below \<open>2^53\<close>, where
  the arithmetic of doubles is exact.
\<close>

type_synonym byte = "8 word"
type_synonym jsstring = "16 word list"

text \<open>The exceptions the modelled code can raise (a rejected promise is a raised exception).\<close>

datatype exn =
    SyntaxError
  | InvalidCharacterError
  | Error jsstring

text \<open>An ASCII string literal of the source, as a JavaScript string.\<close>

definition lit :: "string \<Rightarrow> jsstring" where
  "lit s = map (\<lambda>c. of_nat (of_char c)) s"

text \<open>\<open>String(n)\<close> for an integer \<open>n\<close>, as a template literal \<open>${n}\<close> renders it.\<close>

fun String_nat :: "nat \<Rightarrow> jsstring" where
  "String_nat n =
     (if n < 10 then [of_nat (48 + n)]
      else String_nat (n div 10) @ [of_nat (48 + n mod 10)])"

declare String_nat.simps [simp del]

definition String_int :: "int \<Rightarrow> jsstring" where
  "String_int i = (if i < 0 then lit ''-'' @ String_nat (nat (- i)) else String_nat (nat i))"

text \<open>\<open>Math.ceil(x / d)\<close> for integers \<open>x\<close> and a positive integer \<open>d\<close>.\<close>

definition Math_ceil_div :: "int \<Rightarrow> int \<Rightarrow> int" where
  "Math_ceil_div x d = - ((- x) div d)"

subsection \<open>\<open>btoa\<close> and \<open>atob\<close>\<close>

text \<open>
  Both are functions of the host, modelled as the HTML standard defines them (forgiving
  base64). The base64 alphabet: the character of a 6-bit value and the 6-bit value of a
  character.
\<close>

definition b64_code :: "nat \<Rightarrow> nat" where
  "b64_code i =
     (if i < 26 then 65 + i
      else if i < 52 then 71 + i
      else if i < 62 then i - 4
      else if i = 62 then 43
      else 47)"

definition b64_char :: "nat \<Rightarrow> 16 word" where
  "b64_char i = of_nat (b64_code i)"

definition b64_value :: "nat \<Rightarrow> nat option" where
  "b64_value n =
     (if 65 \<le> n \<and> n \<le> 90 then Some (n - 65)
      else if 97 \<le> n \<and> n \<le> 122 then Some (n - 71)
      else if 48 \<le> n \<and> n \<le> 57 then Some (n + 4)
      else if n = 43 then Some 62
      else if n = 47 then Some 63
      else None)"

definition b64_index :: "16 word \<Rightarrow> nat option" where
  "b64_index c = b64_value (unat c)"

definition b64_pad :: "16 word" where
  "b64_pad = 61"

text \<open>The 6-bit groups of a byte sequence; the last group of a partial triple is zero-filled.\<close>

fun sextets :: "nat list \<Rightarrow> nat list" where
  "sextets (a # b # c # rest) =
     [a div 4, (a mod 4) * 16 + b div 16, (b mod 16) * 4 + c div 64, c mod 64] @ sextets rest"
| "sextets [a, b] = [a div 4, (a mod 4) * 16 + b div 16, (b mod 16) * 4]"
| "sextets [a] = [a div 4, (a mod 4) * 16]"
| "sextets [] = []"

definition b64_encode :: "nat list \<Rightarrow> jsstring" where
  "b64_encode bs =
     map b64_char (sextets bs) @ replicate ((3 - length bs mod 3) mod 3) b64_pad"

text \<open>\<open>btoa\<close> rejects a string with a code unit above \<open>0xFF\<close>.\<close>

definition btoa :: "jsstring \<Rightarrow> exn + jsstring" where
  "btoa binary =
     (if \<exists>c \<in> set binary. 255 < unat c then Inl InvalidCharacterError
      else Inr (b64_encode (map unat binary)))"

text \<open>
  \<open>atob\<close> is the forgiving base64 decoder: ASCII whitespace is removed, one or two
  trailing \<open>=\<close> are removed when the length is a multiple of four, a length of
  \<open>4k + 1\<close> or a character outside the alphabet is rejected, and the spare bits of a
  final partial group are dropped.
\<close>

definition ascii_whitespace :: "16 word \<Rightarrow> bool" where
  "ascii_whitespace c = (c = 9 \<or> c = 10 \<or> c = 12 \<or> c = 13 \<or> c = 32)"

definition strip_padding :: "jsstring \<Rightarrow> jsstring" where
  "strip_padding d =
     (if length d mod 4 = 0 \<and> d \<noteq> [] \<and> last d = b64_pad then
        (let d1 = butlast d in
         if d1 \<noteq> [] \<and> last d1 = b64_pad then butlast d1 else d1)
      else d)"

fun b64_decode :: "nat list \<Rightarrow> nat list" where
  "b64_decode (a # b # c # d # rest) =
     [a * 4 + b div 16, (b mod 16) * 16 + c div 4, (c mod 4) * 64 + d] @ b64_decode rest"
| "b64_decode [a, b, c] = [a * 4 + b div 16, (b mod 16) * 16 + c div 4]"
| "b64_decode [a, b] = [a * 4 + b div 16]"
| "b64_decode [a] = []"
| "b64_decode [] = []"

definition atob :: "jsstring \<Rightarrow> exn + jsstring" where
  "atob data =
     (let d = strip_padding (filter (\<lambda>c. \<not> ascii_whitespace c) data) in
      if length d mod 4 = 1 then Inl InvalidCharacterError
      else (case those (map b64_index d) of
              None \<Rightarrow> Inl InvalidCharacterError
            | Some ixs \<Rightarrow> Inr (map of_nat (b64_decode ixs))))"

subsection \<open>\<open>TextEncoder\<close>\<close>

text \<open>
  \<open>TextEncoder\<close> and \<open>TextDecoder\<close> are functions of the host too, modelled as the
  Encoding standard defines them. \<open>TextEncoder.encode\<close> first reads the string as Unicode
  scalar values, a surrogate pair giving one value and an unpaired surrogate giving
  \<open>U+FFFD\<close>, then writes each value in UTF-8.
\<close>

definition lead_surrogate :: "16 word \<Rightarrow> bool" where
  "lead_surrogate u = (55296 \<le> unat u \<and> unat u \<le> 56319)"

definition trail_surrogate :: "16 word \<Rightarrow> bool" where
  "trail_surrogate u = (56320 \<le> unat u \<and> unat u \<le> 57343)"

fun scalar_values :: "jsstring \<Rightarrow> nat list" where
  "scalar_values (u # v # vs) =
     (if lead_surrogate u \<and> trail_surrogate v
      then (65536 + (unat u - 55296) * 1024 + (unat v - 56320)) # scalar_values vs
      else (if lead_surrogate u \<or> trail_surrogate u then 65533 else unat u)
           # scalar_values (v # vs))"
| "scalar_values [u] = [if lead_surrogate u \<or> trail_surrogate u then 65533 else unat u]"
| "scalar_values [] = []"

definition utf8_bytes :: "nat \<Rightarrow> byte list" where
  "utf8_bytes cp =
     (if cp < 128 then [of_nat cp]
      else if cp < 2048 then [of_nat (192 + cp div 64), of_nat (128 + cp mod 64)]
      else if cp < 65536 then
        [of_nat (224 + cp div 4096), of_nat (128 + (cp div 64) mod 64), of_nat (128 + cp mod 64)]
      else
        [of_nat (240 + cp div 262144), of_nat (128 + (cp div 4096) mod 64),
         of_nat (128 + (cp div 64) mod 64), of_nat (128 + cp mod 64)])"

definition TextEncoder_encode :: "jsstring \<Rightarrow> byte list" where
  "TextEncoder_encode s = concat (map utf8_bytes (scalar_values s))"

subsection \<open>\<open>TextDecoder\<close>\<close>

text \<open>
  \<open>TextDecoder.decode\<close> for UTF-8, not fatal: the decoder keeps the code point under
  construction, the number of continuation bytes still needed and the bounds of the next
  one. A byte that cannot start or continue a sequence gives \<open>U+FFFD\<close>; a byte that breaks
  a sequence is read again as the start of the next one; input that ends inside a sequence
  gives one more \<open>U+FFFD\<close>.
\<close>

function utf8_decode :: "nat \<Rightarrow> nat \<Rightarrow> nat \<Rightarrow> nat \<Rightarrow> nat list \<Rightarrow> nat list" where
  "utf8_decode cp needed lower upper [] = (if needed \<noteq> 0 then [65533] else [])"
| "utf8_decode cp needed lower upper (b # bs) =
     (if needed = 0 then
        (if b \<le> 127 then b # utf8_decode 0 0 128 191 bs
         else if 194 \<le> b \<and> b \<le> 223 then utf8_decode (b mod 32) 1 128 191 bs
         else if 224 \<le> b \<and> b \<le> 239 then
           utf8_decode (b mod 16) 2 (if b = 224 then 160 else 128)
             (if b = 237 then 159 else 191) bs
         else if 240 \<le> b \<and> b \<le> 244 then
           utf8_decode (b mod 8) 3 (if b = 240 then 144 else 128)
             (if b = 244 then 143 else 191) bs
         else 65533 # utf8_decode 0 0 128 191 bs)
      else if b < lower \<or> upper < b then 65533 # utf8_decode 0 0 128 191 (b # bs)
      else if needed = 1 then (cp * 64 + b mod 64) # utf8_decode 0 0 128 191 bs
      else utf8_decode (cp * 64 + b mod 64) (needed - 1) 128 191 bs)"
  by pat_completeness auto
termination
  by (relation "measure (\<lambda>(cp, needed, lower, upper, bs).
        2 * length bs + (if needed = 0 then 0 else 1))") auto

text \<open>
  A code point above \<open>U+FFFF\<close> becomes a surrogate pair; a leading \<open>U+FEFF\<close> of the
  decoded text is dropped, as \<open>ignoreBOM\<close> is false by default.
\<close>

definition utf16_units :: "nat \<Rightarrow> jsstring" where
  "utf16_units cp =
     (if cp < 65536 then [of_nat cp]
      else [of_nat (55296 + (cp - 65536) div 1024), of_nat (56320 + (cp - 65536) mod 1024)])"

definition strip_BOM :: "nat list \<Rightarrow> nat list" where
  "strip_BOM cps = (case cps of [] \<Rightarrow> [] | c # rest \<Rightarrow> if c = 65279 then rest else cps)"

definition TextDecoder_decode :: "byte list \<Rightarrow> jsstring" where
  "TextDecoder_decode buffer =
     concat (map utf16_units (strip_BOM (utf8_decode 0 0 128 191 (map unat buffer))))"

subsection \<open>Well-formed strings\<close>

text \<open>
  A string is well formed when it has no unpaired surrogate
  (\<open>String.prototype.isWellFormed\<close>); a scalar value is a code point that is not a
  surrogate.
\<close>

fun isWellFormed :: "jsstring \<Rightarrow> bool" where
  "isWellFormed (u # v # vs) =
     (if lead_surrogate u then trail_surrogate v \<and> isWellFormed vs
      else \<not> trail_surrogate u \<and> isWellFormed (v # vs))"
| "isWellFormed [u] = (\<not> lead_surrogate u \<and> \<not> trail_surrogate u)"
| "isWellFormed [] = True"

definition scalar_value :: "nat \<Rightarrow> bool" where
  "scalar_value cp = (cp < 1114112 \<and> \<not> (55296 \<le> cp \<and> cp \<le> 57343))"

section \<open>The platform\<close>

text \<open>
  The Web Crypto algorithms are functions of the host, not of the repository; they are
  parameters of the model: the SHA-256 digest, PBKDF2 with HMAC-SHA-256 (password bytes,
  salt, iteration count, key length in bits) and AES-GCM (key bytes, IV, data), whose
  decryption yields nothing when the authentication tag does not verify. The digest, the
  derivation and the encryption are taken to return, and so is every write to
  \<open>localStorage\<close>.
\<close>

record platform =
  sha256 :: "byte list \<Rightarrow> byte list"
  pbkdf2 :: "byte list \<Rightarrow> byte list \<Rightarrow> nat \<Rightarrow> nat \<Rightarrow> byte list"
  aes_gcm_encrypt :: "byte list \<Rightarrow> byte list \<Rightarrow> byte list \<Rightarrow> byte list"
  aes_gcm_decrypt :: "byte list \<Rightarrow> byte list \<Rightarrow> byte list \<Rightarrow> byte list option"

text \<open>
  \<open>crypto.getRandomValues\<close> fills an array of \<open>n\<close> bytes from the host's entropy: the
  source is a stream of bytes, and a call consumes its first \<open>n\<close>.
\<close>

type_synonym entropy = "nat \<Rightarrow> byte"

definition getRandomValues :: "nat \<Rightarrow> entropy \<Rightarrow> byte list \<times> entropy" where
  "getRandomValues n src = (map src [0..<n], \<lambda>i. src (i + n))"

text \<open>
  The PBKDF2 base key that \<open>importKey\<close> returns and the AES-GCM key that \<open>deriveKey\<close>
  returns are both \<open>CryptoKey\<close> objects in the source; they get a type each here, the
  second keeping the source's name.
\<close>

datatype KeyMaterial = KeyMaterial "byte list"

datatype CryptoKey = CryptoKey (raw: "byte list")

section \<open>services/crypto.ts\<close>

definition String_fromCharCode :: "byte \<Rightarrow> 16 word" where
  "String_fromCharCode b = ucast b"

definition bufferToBase64 :: "byte list \<Rightarrow> exn + jsstring" where
  "bufferToBase64 buffer =
     (let binary = foldl (\<lambda>binary b. binary @ [String_fromCharCode b]) [] buffer
      in btoa binary)"

text \<open>A \<open>Uint8Array\<close> element keeps the low eight bits of the number stored into it.\<close>

definition base64ToBuffer :: "jsstring \<Rightarrow> exn + byte list" where
  "base64ToBuffer base64 =
     (case atob base64 of
        Inl e \<Rightarrow> Inl e
      | Inr binaryString \<Rightarrow> Inr (map (\<lambda>c. ucast c) binaryString))"

definition generateSalt :: "entropy \<Rightarrow> (exn + jsstring) \<times> entropy" where
  "generateSalt src =
     (let (salt, src') = getRandomValues 16 src in (bufferToBase64 salt, src'))"

definition importPassword :: "jsstring \<Rightarrow> KeyMaterial" where
  "importPassword password = KeyMaterial (TextEncoder_encode password)"

definition subtle_deriveKey :: "platform \<Rightarrow> byte list \<Rightarrow> nat \<Rightarrow> KeyMaterial \<Rightarrow> nat \<Rightarrow> CryptoKey" where
  "subtle_deriveKey P salt iterations keyMaterial len =
     (case keyMaterial of KeyMaterial pw \<Rightarrow> CryptoKey (pbkdf2 P pw salt iterations len))"

definition deriveKey :: "platform \<Rightarrow> jsstring \<Rightarrow> jsstring \<Rightarrow> exn + CryptoKey" where
  "deriveKey P password saltBase64 =
     (case base64ToBuffer saltBase64 of
        Inl e \<Rightarrow> Inl e
      | Inr salt \<Rightarrow>
          (let keyMaterial = importPassword password
           in Inr (subtle_deriveKey P salt 100000 keyMaterial 256)))"

definition hashPassword :: "platform \<Rightarrow> jsstring \<Rightarrow> jsstring \<Rightarrow> exn + jsstring" where
  "hashPassword P password saltBase64 =
     (let data = TextEncoder_encode (password @ saltBase64);
          hashBuffer = sha256 P data
      in bufferToBase64 hashBuffer)"

text \<open>
  \<open>encryptData\<close> draws the 12 bytes of the IV from the entropy source. In
  \<open>decryptData\<close> the two \<open>base64ToBuffer\<close> calls are outside the \<open>try\<close>, so their
  exception passes through; a failed decryption is raised again as the \<open>Error\<close> of the
  \<open>catch\<close>.
\<close>

record EncryptedData =
  ciphertext :: jsstring
  iv :: jsstring

definition encryptData ::
  "platform \<Rightarrow> entropy \<Rightarrow> jsstring \<Rightarrow> CryptoKey \<Rightarrow> (exn + EncryptedData) \<times> entropy" where
  "encryptData P src text k =
     (let data = TextEncoder_encode text;
          (nonce, src') = getRandomValues 12 src;
          encryptedBuffer = aes_gcm_encrypt P (raw k) nonce data
      in (case bufferToBase64 encryptedBuffer of
            Inl e \<Rightarrow> (Inl e, src')
          | Inr c \<Rightarrow>
              (case bufferToBase64 nonce of
                 Inl e \<Rightarrow> (Inl e, src')
               | Inr i \<Rightarrow> (Inr \<lparr>ciphertext = c, iv = i\<rparr>, src'))))"

definition decryptData :: "platform \<Rightarrow> jsstring \<Rightarrow> jsstring \<Rightarrow> CryptoKey \<Rightarrow> exn + jsstring" where
  "decryptData P ciphertextBase64 ivBase64 k =
     (case base64ToBuffer ciphertextBase64 of
        Inl e \<Rightarrow> Inl e
      | Inr ct \<Rightarrow>
          (case base64ToBuffer ivBase64 of
             Inl e \<Rightarrow> Inl e
           | Inr nonce \<Rightarrow>
               (case aes_gcm_decrypt P (raw k) nonce ct of
                  None \<Rightarrow>
                    Inl (Error (lit ''Decryption failed. Data may be corrupted or key is incorrect.''))
                | Some decryptedBuffer \<Rightarrow> Inr (TextDecoder_decode decryptedBuffer))))"

section \<open>services/db.ts\<close>

text \<open>
  A string held by \<open>localStorage\<close> is represented by what \<open>JSON.parse\<close> makes of it:
  \<open>Json v\<close> is the text \<open>JSON.stringify(v)\<close>, which parses back to \<open>v\<close>, and
  \<open>Malformed s\<close> is a text \<open>s\<close> that \<open>JSON.parse\<close> rejects with a \<open>SyntaxError\<close>, the
  empty string among them. Only the empty string is falsy. A text that parses to a value
  of another shape than the one its key holds is outside this model.
\<close>

datatype 'a item = Malformed jsstring | Json 'a

fun truthy :: "'a item \<Rightarrow> bool" where
  "truthy (Malformed s) = (s \<noteq> [])"
| "truthy (Json v) = True"

fun JSON_parse :: "'a item \<Rightarrow> exn + 'a" where
  "JSON_parse (Malformed s) = Inl SyntaxError"
| "JSON_parse (Json v) = Inr v"

definition JSON_stringify :: "'a \<Rightarrow> 'a item" where
  "JSON_stringify v = Json v"

record VaultMetadata =
  salt :: jsstring
  authHash :: jsstring

record PasswordEntry =
  id :: jsstring
  site :: jsstring
  username :: jsstring
  encryptedPassword :: jsstring
  iv :: jsstring
  createdAt :: int

record LoginAttemptLog =
  timestamp :: int
  success :: bool

record SecurityState =
  count :: int
  lockoutUntil :: int
  logs :: "LoginAttemptLog list"

text \<open>
  \<open>localStorage\<close>, restricted to the three keys of \<open>DB_KEYS\<close>; a field is \<open>None\<close> when
  \<open>getItem\<close> returns \<open>null\<close> for its key.
\<close>

record localStorage =
  secure_vault_metadata :: "VaultMetadata item option"
  secure_vault_entries :: "PasswordEntry list item option"
  secure_vault_attempts :: "SecurityState item option"

definition hasVault :: "localStorage \<Rightarrow> bool" where
  "hasVault ls =
     (case secure_vault_metadata ls of None \<Rightarrow> False | Some data \<Rightarrow> truthy data)"

definition initVault :: "VaultMetadata \<Rightarrow> localStorage \<Rightarrow> localStorage" where
  "initVault metadata ls =
     ls\<lparr>secure_vault_metadata := Some (JSON_stringify metadata),
        secure_vault_entries := Some (JSON_stringify []),
        secure_vault_attempts :=
          Some (JSON_stringify \<lparr>count = 0, lockoutUntil = 0, logs = []\<rparr>)\<rparr>"

definition getMetadata :: "localStorage \<Rightarrow> exn + VaultMetadata option" where
  "getMetadata ls =
     (case secure_vault_metadata ls of
        None \<Rightarrow> Inr None
      | Some data \<Rightarrow>
          if truthy data
          then (case JSON_parse data of Inl e \<Rightarrow> Inl e | Inr m \<Rightarrow> Inr (Some m))
          else Inr None)"

definition getEntries :: "localStorage \<Rightarrow> exn + PasswordEntry list" where
  "getEntries ls =
     (case secure_vault_entries ls of
        None \<Rightarrow> Inr []
      | Some data \<Rightarrow> if truthy data then JSON_parse data else Inr [])"

definition saveEntry :: "PasswordEntry \<Rightarrow> localStorage \<Rightarrow> localStorage \<times> (exn + unit)" where
  "saveEntry entry ls =
     (case getEntries ls of
        Inl e \<Rightarrow> (ls, Inl e)
      | Inr entries \<Rightarrow>
          (ls\<lparr>secure_vault_entries := Some (JSON_stringify (entries @ [entry]))\<rparr>, Inr ()))"

definition deleteEntry :: "jsstring \<Rightarrow> localStorage \<Rightarrow> localStorage \<times> (exn + unit)" where
  "deleteEntry i ls =
     (case getEntries ls of
        Inl e \<Rightarrow> (ls, Inl e)
      | Inr entries \<Rightarrow>
          (let newEntries = filter (\<lambda>e. id e \<noteq> i) entries
           in (ls\<lparr>secure_vault_entries := Some (JSON_stringify newEntries)\<rparr>, Inr ())))"

definition resetVault :: "localStorage \<Rightarrow> localStorage" where
  "resetVault ls =
     ls\<lparr>secure_vault_metadata := None, secure_vault_entries := None,
        secure_vault_attempts := None\<rparr>"

definition getSecurityState :: "localStorage \<Rightarrow> exn + SecurityState" where
  "getSecurityState ls =
     (case secure_vault_attempts ls of
        None \<Rightarrow> Inr \<lparr>count = 0, lockoutUntil = 0, logs = []\<rparr>
      | Some data \<Rightarrow>
          if truthy data then JSON_parse data
          else Inr \<lparr>count = 0, lockoutUntil = 0, logs = []\<rparr>)"

definition updateSecurityState :: "SecurityState \<Rightarrow> localStorage \<Rightarrow> localStorage" where
  "updateSecurityState state ls = ls\<lparr>secure_vault_attempts := Some (JSON_stringify state)\<rparr>"

section \<open>services/auth.ts\<close>

definition MAX_ATTEMPTS :: int where
  "MAX_ATTEMPTS = 3"

definition LOCKOUT_DURATION_MS :: int where
  "LOCKOUT_DURATION_MS = 30000"

text \<open>
  \<open>registerUser\<close> draws the salt from the entropy source and writes the vault; the
  function returns the storage and the source as it leaves them, and the key or the
  exception raised.
\<close>

definition registerUser ::
  "platform \<Rightarrow> entropy \<Rightarrow> jsstring \<Rightarrow> localStorage \<Rightarrow> localStorage \<times> entropy \<times> (exn + CryptoKey)" where
  "registerUser P src password ls =
     (case generateSalt src of
        (Inl e, src') \<Rightarrow> (ls, src', Inl e)
      | (Inr newSalt, src') \<Rightarrow>
          (case hashPassword P password newSalt of
             Inl e \<Rightarrow> (ls, src', Inl e)
           | Inr newHash \<Rightarrow>
               (let metadata = \<lparr>salt = newSalt, authHash = newHash\<rparr>;
                    ls' = initVault metadata ls
                in (ls', src', deriveKey P password newSalt))))"

record LoginResult =
  success :: bool
  key :: "CryptoKey option"
  error :: "jsstring option"

text \<open>
  \<open>loginUser\<close> at the instant \<open>now\<close> that \<open>Date.now()\<close> returns in the call. The storage
  is returned as the call leaves it, also when an exception is raised after a write.
\<close>

definition loginUser ::
  "platform \<Rightarrow> int \<Rightarrow> jsstring \<Rightarrow> localStorage \<Rightarrow> localStorage \<times> (exn + LoginResult)" where
  "loginUser P now password ls =
     (case getSecurityState ls of
        Inl e \<Rightarrow> (ls, Inl e)
      | Inr securityState \<Rightarrow>
          if lockoutUntil securityState > now then
            (let remaining = Math_ceil_div (lockoutUntil securityState - now) 1000
             in (ls, Inr \<lparr>success = False, key = None,
                          error = Some (lit ''Account locked. Try again in '' @
                                        String_int remaining @ lit '' seconds.'')\<rparr>))
          else
            (case getMetadata ls of
               Inl e \<Rightarrow> (ls, Inl e)
             | Inr None \<Rightarrow>
                 (ls, Inr \<lparr>success = False, key = None,
                          error = Some (lit ''Vault corrupted or missing.'')\<rparr>)
             | Inr (Some metadata) \<Rightarrow>
                 (case hashPassword P password (salt metadata) of
                    Inl e \<Rightarrow> (ls, Inl e)
                  | Inr attemptHash \<Rightarrow>
                      if attemptHash = authHash metadata then
                        (let ls' = updateSecurityState
                                     (securityState\<lparr>count := 0, lockoutUntil := 0,
                                        logs := logs securityState @
                                                [\<lparr>timestamp = now, success = True\<rparr>]\<rparr>) ls
                         in (case deriveKey P password (salt metadata) of
                               Inl e \<Rightarrow> (ls', Inl e)
                             | Inr k \<Rightarrow>
                                 (ls', Inr \<lparr>success = True, key = Some k, error = None\<rparr>)))
                      else
                        (let newCount = count securityState + 1;
                             locked = (newCount \<ge> MAX_ATTEMPTS);
                             newLockout = (if locked then now + LOCKOUT_DURATION_MS else 0);
                             errorMsg =
                               (if locked
                                then lit ''Too many failed attempts. Account locked for '' @
                                     String_int (LOCKOUT_DURATION_MS div 1000) @
                                     lit '' seconds.''
                                else lit ''Invalid password.'');
                             ls' = updateSecurityState
                                     (securityState\<lparr>count := newCount,
                                        lockoutUntil := newLockout,
                                        logs := logs securityState @
                                                [\<lparr>timestamp = now, success = False\<rparr>]\<rparr>) ls
                         in (ls', Inr \<lparr>success = False, key = None,
                                       error = Some errorMsg\<rparr>)))))"

record LockoutStatus =
  isLocked :: bool
  remaining :: int

definition getLockoutStatus :: "int \<Rightarrow> localStorage \<Rightarrow> exn + LockoutStatus" where
  "getLockoutStatus now ls =
     (case getSecurityState ls of
        Inl e \<Rightarrow> Inl e
      | Inr st \<Rightarrow>
          if lockoutUntil st > now
          then Inr \<lparr>isLocked = True, remaining = Math_ceil_div (lockoutUntil st - now) 1000\<rparr>
          else Inr \<lparr>isLocked = False, remaining = 0\<rparr>)"

section \<open>Concrete instances\<close>

text \<open>
  A small instance of the platform, on which the definitions can be evaluated. Nothing
  cryptographic is meant by it: the digest reverses its input, the derived key is cut
  from password and salt, and the cipher appends key and IV as its tag.
\<close>

definition example_platform :: platform where
  "example_platform =
     \<lparr>sha256 = (\<lambda>bs. rev bs),
      pbkdf2 = (\<lambda>pw s n len. take (len div 8) (pw @ s @ replicate (len div 8) 0)),
      aes_gcm_encrypt = (\<lambda>k nonce d. d @ k @ nonce),
      aes_gcm_decrypt = (\<lambda>k nonce c.
         if length (k @ nonce) \<le> length c \<and>
            drop (length c - length (k @ nonce)) c = k @ nonce
         then Some (take (length c - length (k @ nonce)) c) else None)\<rparr>"

definition example_entropy :: entropy where
  "example_entropy = (\<lambda>i. of_nat (7 * i + 3))"

definition no_vault :: localStorage where
  "no_vault =
     \<lparr>secure_vault_metadata = None, secure_vault_entries = None,
      secure_vault_attempts = None\<rparr>"

text \<open>
  The vault that registering the password \<open>CorrectHorse1\<close> on \<open>example_platform\<close> with
  \<open>example_entropy\<close> leaves behind, and the same vault during a lockout until \<open>31000\<close>.
\<close>

definition example_metadata :: VaultMetadata where
  "example_metadata =
     \<lparr>salt = lit ''AwoRGB8mLTQ7QklQV15lbA=='',
      authHash = lit ''PT1BYmw1MVZRbGtRN1FUTG04QkdSb3dBMWVzcm9IdGNlcnJvQw==''\<rparr>"

definition example_vault :: localStorage where
  "example_vault =
     \<lparr>secure_vault_metadata = Some (Json example_metadata),
      secure_vault_entries = Some (Json []),
      secure_vault_attempts = Some (Json \<lparr>count = 0, lockoutUntil = 0, logs = []\<rparr>)\<rparr>"

definition locked_state :: SecurityState where
  "locked_state =
     \<lparr>count = 3, lockoutUntil = 31000,
      logs = [\<lparr>timestamp = 200, success = False\<rparr>, \<lparr>timestamp = 600, success = False\<rparr>,
              \<lparr>timestamp = 1000, success = False\<rparr>]\<rparr>"

definition locked_vault :: localStorage where
  "locked_vault = example_vault\<lparr>secure_vault_attempts := Some (Json locked_state)\<rparr>"

text \<open>A storage whose three strings \<open>JSON.parse\<close> rejects.\<close>

definition broken_vault :: localStorage where
  "broken_vault =
     \<lparr>secure_vault_metadata = Some (Malformed (lit ''{'')),
      secure_vault_entries = Some (Malformed (lit ''[1,'')),
      secure_vault_attempts = Some (Malformed (lit ''oops''))\<rparr>"

text \<open>The key that \<open>deriveKey\<close> gives for this password and salt on \<open>example_platform\<close>.\<close>

definition example_key :: CryptoKey where
  "example_key = CryptoKey [67, 111, 114, 114, 101, 99, 116, 72, 111, 114, 115, 101, 49, 3, 10,
        17, 24, 31, 38, 45, 52, 59, 66, 73, 80, 87, 94, 101, 108, 0, 0, 0]"

section \<open>Facts about the encodings and the store\<close>

lemma foldl_snoc_map: "foldl (\<lambda>acc b. acc @ [f b]) acc xs = acc @ map f xs"
  by (induction xs arbitrary: acc) simp_all

lemma unat_byte_less: "unat (b :: byte) < 256"
  using unsigned_less [of b, where 'a = nat] by simp

lemma unat_fromCharCode: "unat (String_fromCharCode b) = unat b"
  using unat_byte_less [of b]
  by (simp add: String_fromCharCode_def unsigned_ucast_eq take_bit_nat_eq_self)

text \<open>\<open>bufferToBase64\<close> never raises: the binary string it builds holds bytes only.\<close>

lemma bufferToBase64_eq: "bufferToBase64 buffer = Inr (b64_encode (map unat buffer))"
proof -
  have "\<forall>c \<in> set (map String_fromCharCode buffer). \<not> 255 < unat c"
  proof
    fix c assume "c \<in> set (map String_fromCharCode buffer)"
    then obtain b where "c = String_fromCharCode b" by auto
    then show "\<not> 255 < unat c"
      using unat_byte_less [of b] by (simp add: unat_fromCharCode)
  qed
  then show ?thesis
    by (simp add: bufferToBase64_def foldl_snoc_map btoa_def unat_fromCharCode comp_def)
qed

lemma hashPassword_eq:
  "hashPassword P password s =
     Inr (b64_encode (map unat (sha256 P (TextEncoder_encode (password @ s)))))"
  by (simp add: hashPassword_def bufferToBase64_eq)

text \<open>\<open>Math_ceil_div\<close> is the ceiling of the quotient, as \<open>Math.ceil(x / d)\<close> is.\<close>

lemma Math_ceil_div_ceiling:
  "Math_ceil_div x d = \<lceil>(of_int x :: real) / of_int d\<rceil>"
  unfolding Math_ceil_div_def by (simp add: ceiling_divide_eq_div)

lemma Math_ceil_div_pos: "0 < x \<Longrightarrow> 1 \<le> Math_ceil_div x 1000"
  unfolding Math_ceil_div_def by linarith

lemma String_int_30: "String_int 30 = lit ''30''"
  by (simp add: String_int_def lit_def String_nat.simps)

lemma getSecurityState_update [simp]:
  "getSecurityState (updateSecurityState s ls) = Inr s"
  by (simp add: getSecurityState_def updateSecurityState_def JSON_stringify_def)

lemma getMetadata_update [simp]:
  "getMetadata (updateSecurityState s ls) = getMetadata ls"
  by (simp add: getMetadata_def updateSecurityState_def)

lemma getEntries_update [simp]:
  "getEntries (updateSecurityState s ls) = getEntries ls"
  by (simp add: getEntries_def updateSecurityState_def)

subsection \<open>\<open>atob\<close> inverts the base64 encoding\<close>

lemma unat_of_nat_16: "n < 65536 \<Longrightarrow> unat (of_nat n :: 16 word) = n"
  by (simp add: unat_of_nat)

lemma b64_code_less: "b64_code i < 123"
  unfolding b64_code_def by (simp; linarith)

lemma b64_value_code: "i < 64 \<Longrightarrow> b64_value (b64_code i) = Some i"
  unfolding b64_value_def b64_code_def by (simp; linarith)

lemma b64_index_char: "i < 64 \<Longrightarrow> b64_index (b64_char i) = Some i"
  using b64_code_less [of i]
  by (simp only: b64_index_def b64_char_def unat_of_nat_16 b64_value_code)

lemma b64_char_not_pad: "i < 64 \<Longrightarrow> b64_char i \<noteq> b64_pad"
proof
  assume "i < 64" and "b64_char i = b64_pad"
  then have "b64_index b64_pad = Some i" using b64_index_char by metis
  then show False by (simp add: b64_index_def b64_value_def b64_pad_def)
qed

lemma b64_char_not_ws: "i < 64 \<Longrightarrow> \<not> ascii_whitespace (b64_char i)"
proof
  assume "i < 64" and w: "ascii_whitespace (b64_char i)"
  then have "b64_index (b64_char i) = Some i" using b64_index_char by metis
  with w show False
    unfolding ascii_whitespace_def
    by (elim disjE) (simp_all add: b64_index_def b64_value_def)
qed

lemma sextet_arith:
  fixes a b c :: nat
  assumes "a < 256" "b < 256" "c < 256"
  shows "a div 4 < 64" "(a mod 4) * 16 + b div 16 < 64" "(b mod 16) * 4 + c div 64 < 64"
    "c mod 64 < 64" "(a mod 4) * 16 < 64" "(b mod 16) * 4 < 64"
  using assms by simp_all

lemma join_first:
  fixes a b :: nat
  assumes "b < 256"
  shows "a div 4 * 4 + ((a mod 4) * 16 + b div 16) div 16 = a"
proof -
  have "b div 16 < 16" using assms by simp
  then have "((a mod 4) * 16 + b div 16) div 16 = a mod 4" by simp
  then show ?thesis by simp
qed

lemma join_second:
  fixes a b c :: nat
  assumes "b < 256" "c < 256"
  shows "((a mod 4) * 16 + b div 16) mod 16 * 16 + ((b mod 16) * 4 + c div 64) div 4 = b"
proof -
  have "b div 16 < 16" "c div 64 < 4" using assms by simp_all
  then have "((a mod 4) * 16 + b div 16) mod 16 = b div 16"
    "((b mod 16) * 4 + c div 64) div 4 = b mod 16"
    by simp_all
  then show ?thesis by simp
qed

lemma join_third:
  fixes b c :: nat
  assumes "c < 256"
  shows "((b mod 16) * 4 + c div 64) mod 4 * 64 + c mod 64 = c"
proof -
  have "c div 64 < 4" using assms by simp
  then have "((b mod 16) * 4 + c div 64) mod 4 = c div 64" by simp
  then show ?thesis by simp
qed

lemma join_second_last:
  fixes a b :: nat
  assumes "b < 256"
  shows "((a mod 4) * 16 + b div 16) mod 16 * 16 + ((b mod 16) * 4) div 4 = b"
proof -
  have "b div 16 < 16" using assms by simp
  then have "((a mod 4) * 16 + b div 16) mod 16 = b div 16" by simp
  then show ?thesis by simp
qed

lemma join_first_last: "a div 4 * 4 + ((a mod 4) * 16) div 16 = (a::nat)"
  by simp

lemma sextets_bound: "\<forall>b \<in> set bs. b < 256 \<Longrightarrow> \<forall>i \<in> set (sextets bs). i < 64"
proof (induction bs rule: sextets.induct)
  case (1 a b c rest)
  then have r: "\<forall>i \<in> set (sextets rest). i < 64" and "a < 256" "b < 256" "c < 256"
    by simp_all
  from sextet_arith [OF this(2-4)] r show ?case
    by (simp only: sextets.simps set_append set_simps ball_Un ball_simps simp_thms)
next
  case (2 a b)
  then have "a < 256" "b < 256" by simp_all
  from sextet_arith [OF this this(2)] show ?case
    by (simp only: sextets.simps set_simps ball_simps simp_thms)
next
  case (3 a)
  then have "a < 256" by simp
  from sextet_arith [OF this this this] show ?case
    by (simp only: sextets.simps set_simps ball_simps simp_thms)
next
  case 4
  show ?case by simp
qed

lemma b64_decode_sextets: "\<forall>b \<in> set bs. b < 256 \<Longrightarrow> b64_decode (sextets bs) = bs"
proof (induction bs rule: sextets.induct)
  case (1 a b c rest)
  then have r: "b64_decode (sextets rest) = rest" and "b < 256" "c < 256"
    by simp_all
  from join_first [OF this(2), of a] join_second [OF this(2,3), of a] join_third [OF this(3), of b] r
  show ?case
    by (simp only: sextets.simps b64_decode.simps append_Cons append_Nil mult.commute [of _ 4])
next
  case (2 a b)
  then have "b < 256" by simp
  from join_first [OF this, of a] join_second_last [OF this, of a]
  show ?case
    by (simp only: sextets.simps b64_decode.simps mult.commute [of _ 4])
next
  case (3 a)
  from join_first_last [of a] show ?case
    by (simp only: sextets.simps b64_decode.simps mult.commute [of _ 4])
next
  case 4
  show ?case by simp
qed

lemma sextets_length:
  "length (sextets bs) = 4 * (length bs div 3) + (if length bs mod 3 = 0 then 0 else length bs mod 3 + 1)"
proof (induction bs rule: sextets.induct)
  case (1 a b c rest)
  have "length (a # b # c # rest) div 3 = Suc (length rest div 3)"
    "length (a # b # c # rest) mod 3 = length rest mod 3"
    by simp_all
  with 1 show ?case by simp
qed simp_all

lemma those_map_Some: "those (map Some xs) = Some xs"
  by (induction xs) simp_all

lemma those_index_char:
  assumes "\<forall>i \<in> set ss. i < 64"
  shows "those (map b64_index (map b64_char ss)) = Some ss"
proof -
  from assms have "map b64_index (map b64_char ss) = map Some ss"
    by (induction ss) (simp_all add: b64_index_char)
  then show ?thesis by (simp only: those_map_Some)
qed

lemma pad_not_ws: "\<not> ascii_whitespace b64_pad"
  by (simp add: ascii_whitespace_def b64_pad_def)

lemma filter_ws_encoded:
  assumes "\<forall>i \<in> set ss. i < 64"
  shows "filter (\<lambda>c. \<not> ascii_whitespace c) (map b64_char ss @ replicate n b64_pad) =
           map b64_char ss @ replicate n b64_pad"
proof -
  have "\<forall>c \<in> set (map b64_char ss @ replicate n b64_pad). \<not> ascii_whitespace c"
    using assms by (auto simp add: b64_char_not_ws pad_not_ws)
  then show ?thesis by (simp only: filter_True)
qed

lemma last_map_not_pad:
  assumes "\<forall>i \<in> set ss. i < 64" and "ss \<noteq> []"
  shows "last (map b64_char ss) \<noteq> b64_pad"
proof -
  from assms have "last ss < 64" by simp
  with assms(2) show ?thesis by (simp add: last_map b64_char_not_pad)
qed

lemma strip_padding_encoded:
  assumes b: "\<forall>i \<in> set ss. i < 64"
    and n: "n \<le> 2" and l: "(length ss + n) mod 4 = 0"
    and ne: "n \<noteq> 0 \<longrightarrow> ss \<noteq> []"
  shows "strip_padding (map b64_char ss @ replicate n b64_pad) = map b64_char ss"
proof -
  from n consider "n = 0" | "n = 1" | "n = 2" by linarith
  then show ?thesis
  proof cases
    case 1
    show ?thesis
    proof (cases "ss = []")
      case True
      with 1 show ?thesis by (simp add: strip_padding_def)
    next
      case False
      with b have "last (map b64_char ss) \<noteq> b64_pad" by (rule last_map_not_pad)
      with 1 show ?thesis by (simp add: strip_padding_def)
    qed
  next
    case 2
    with ne have f: "ss \<noteq> []" by simp
    with b have "last (map b64_char ss) \<noteq> b64_pad" by (rule last_map_not_pad)
    with 2 l f show ?thesis by (simp add: strip_padding_def)
  next
    case 3
    then have r: "replicate n b64_pad = [b64_pad, b64_pad]"
      by (simp add: numeral_2_eq_2)
    have e: "map b64_char ss @ [b64_pad, b64_pad] = (map b64_char ss @ [b64_pad]) @ [b64_pad]"
      by simp
    from 3 l show ?thesis
      unfolding r e strip_padding_def by (simp del: append_assoc)
  qed
qed

lemma atob_encode:
  assumes "\<forall>b \<in> set bs. b < 256"
  shows "atob (b64_encode bs) = Inr (map of_nat bs)"
proof -
  let ?ss = "sextets bs"
  let ?n = "(3 - length bs mod 3) mod 3"
  have b: "\<forall>i \<in> set ?ss. i < 64" using assms by (rule sextets_bound)
  have len: "length ?ss = 4 * (length bs div 3) +
               (if length bs mod 3 = 0 then 0 else length bs mod 3 + 1)"
    by (rule sextets_length)
  have m: "length bs mod 3 = 0 \<or> length bs mod 3 = 1 \<or> length bs mod 3 = 2"
    by linarith
  have n: "?n \<le> 2" by linarith
  have l: "(length ?ss + ?n) mod 4 = 0"
    using m by (auto simp add: len)
  have ne: "?n \<noteq> 0 \<longrightarrow> ?ss \<noteq> []"
    using m by (auto simp add: len simp flip: length_0_conv)
  have l1: "length (map b64_char ?ss) mod 4 \<noteq> 1"
    using m by (auto simp add: len)
  have f: "filter (\<lambda>c. \<not> ascii_whitespace c) (b64_encode bs) = b64_encode bs"
    unfolding b64_encode_def using b by (rule filter_ws_encoded)
  have s: "strip_padding (b64_encode bs) = map b64_char ?ss"
    unfolding b64_encode_def using b n l ne by (rule strip_padding_encoded)
  have t: "those (map b64_index (map b64_char ?ss)) = Some ?ss"
    using b by (rule those_index_char)
  have d: "b64_decode ?ss = bs" using assms by (rule b64_decode_sextets)
  show ?thesis
    unfolding atob_def f s Let_def using l1 by (simp only: t d if_False option.case)
qed

lemma ucast_up_down: "(ucast (ucast (b :: byte) :: 16 word) :: byte) = b"
  by (rule bit_word_eqI) (simp add: bit_simps)

lemma base64ToBuffer_encode:
  "base64ToBuffer (b64_encode (map unat (bytes :: byte list))) = Inr bytes"
proof -
  have "\<forall>b \<in> set (map unat bytes). b < 256"
    using unat_byte_less by auto
  then have "atob (b64_encode (map unat bytes)) = Inr (map of_nat (map unat bytes))"
    by (rule atob_encode)
  then show ?thesis
    by (simp add: base64ToBuffer_def comp_def ucast_up_down)
qed

subsection \<open>\<open>TextDecoder\<close> inverts \<open>TextEncoder\<close> on well-formed text\<close>

lemma mod_drop_high:
  fixes x :: nat
  shows "(192 + x) mod 32 = x mod 32" "(224 + x) mod 16 = x mod 16" "(240 + x) mod 8 = x mod 8"
    "(128 + x) mod 64 = x mod 64"
  using mod_mult_self2 [of x 32 6] mod_mult_self2 [of x 16 14] mod_mult_self2 [of x 8 30]
    mod_mult_self2 [of x 64 2]
  by (simp_all add: add.commute)

lemma two_byte_arith:
  fixes cp :: nat
  assumes "128 \<le> cp" "cp < 2048"
  shows "192 + cp div 64 < 256" "194 \<le> 192 + cp div 64" "192 + cp div 64 \<le> 223"
    "(192 + cp div 64) mod 32 = cp div 64"
    "128 + cp mod 64 < 256" "128 \<le> 128 + cp mod 64" "128 + cp mod 64 \<le> 191"
    "cp div 64 * 64 + (128 + cp mod 64) mod 64 = cp"
proof -
  from assms have d: "2 \<le> cp div 64" "cp div 64 < 32" by simp_all
  have m: "cp mod 64 < 64" by simp
  from d show "192 + cp div 64 < 256" "194 \<le> 192 + cp div 64" "192 + cp div 64 \<le> 223"
    by simp_all
  from d show "(192 + cp div 64) mod 32 = cp div 64" by (simp add: mod_drop_high)
  from m show "128 + cp mod 64 < 256" "128 \<le> 128 + cp mod 64" "128 + cp mod 64 \<le> 191"
    by simp_all
  show "cp div 64 * 64 + (128 + cp mod 64) mod 64 = cp" by (simp add: mod_drop_high)
qed

lemma decode_1:
  "b \<le> 127 \<Longrightarrow> utf8_decode 0 0 128 191 (b # bs) = b # utf8_decode 0 0 128 191 bs"
  by simp

lemma decode_2:
  assumes "194 \<le> b1" "b1 \<le> 223" "128 \<le> b2" "b2 \<le> 191"
  shows "utf8_decode 0 0 128 191 (b1 # b2 # bs) =
           ((b1 mod 32) * 64 + b2 mod 64) # utf8_decode 0 0 128 191 bs"
  using assms by simp

lemma decode_3:
  assumes "224 \<le> b1" "b1 \<le> 239"
    and "(if b1 = 224 then 160 else 128) \<le> b2" "b2 \<le> (if b1 = 237 then 159 else 191)"
    and "128 \<le> b3" "b3 \<le> 191"
  shows "utf8_decode 0 0 128 191 (b1 # b2 # b3 # bs) =
           (((b1 mod 16) * 64 + b2 mod 64) * 64 + b3 mod 64) # utf8_decode 0 0 128 191 bs"
  using assms by (simp split: if_splits)

lemma decode_4:
  assumes "240 \<le> b1" "b1 \<le> 244"
    and "(if b1 = 240 then 144 else 128) \<le> b2" "b2 \<le> (if b1 = 244 then 143 else 191)"
    and "128 \<le> b3" "b3 \<le> 191" "128 \<le> b4" "b4 \<le> 191"
  shows "utf8_decode 0 0 128 191 (b1 # b2 # b3 # b4 # bs) =
           ((((b1 mod 8) * 64 + b2 mod 64) * 64 + b3 mod 64) * 64 + b4 mod 64)
           # utf8_decode 0 0 128 191 bs"
  using assms by (simp split: if_splits)

lemma div_chain:
  fixes cp :: nat
  shows "cp div 4096 = cp div 64 div 64" "cp div 262144 = cp div 64 div 64 div 64"
  by (simp_all add: div_mult2_eq [symmetric])

lemma three_byte_arith:
  fixes cp :: nat
  assumes "2048 \<le> cp" "cp < 65536" "\<not> (55296 \<le> cp \<and> cp \<le> 57343)"
  shows "224 + cp div 4096 < 256" "224 \<le> 224 + cp div 4096" "224 + cp div 4096 \<le> 239"
    "(if 224 + cp div 4096 = 224 then 160 else 128) \<le> 128 + cp div 64 mod 64"
    "128 + cp div 64 mod 64 \<le> (if 224 + cp div 4096 = 237 then 159 else 191)"
    "128 + cp div 64 mod 64 < 256"
    "128 + cp mod 64 < 256" "128 \<le> 128 + cp mod 64" "128 + cp mod 64 \<le> 191"
    "(((224 + cp div 4096) mod 16) * 64 + (128 + cp div 64 mod 64) mod 64) * 64 +
       (128 + cp mod 64) mod 64 = cp"
proof -
  let ?x = "cp div 64"
  from assms have d: "cp div 4096 < 16" by simp
  have m: "cp mod 64 < 64" "?x mod 64 < 64" by simp_all
  from d show "224 + cp div 4096 < 256" "224 \<le> 224 + cp div 4096" "224 + cp div 4096 \<le> 239"
    by simp_all
  from m show "128 + ?x mod 64 < 256" "128 + cp mod 64 < 256" "128 \<le> 128 + cp mod 64"
    "128 + cp mod 64 \<le> 191"
    by simp_all
  show "(if 224 + cp div 4096 = 224 then 160 else 128) \<le> 128 + ?x mod 64"
  proof (cases "cp div 4096 = 0")
    case True
    then have "?x div 64 = 0" by (simp add: div_chain)
    then have "?x mod 64 = ?x" by simp
    moreover from assms(1) have "32 \<le> ?x" by simp
    ultimately show ?thesis using True by simp
  next
    case False
    then show ?thesis by simp
  qed
  show "128 + ?x mod 64 \<le> (if 224 + cp div 4096 = 237 then 159 else 191)"
  proof (cases "cp div 4096 = 13")
    case True
    then have t: "?x div 64 = 13" by (simp add: div_chain)
    have "cp < 57344" using True by simp
    with assms(3) have "cp < 55296" by simp
    then have "?x < 864" by simp
    moreover have "?x = 13 * 64 + ?x mod 64"
      using t div_mult_mod_eq [of ?x 64] by simp
    ultimately have "?x mod 64 < 32" by linarith
    with True show ?thesis by simp
  next
    case False
    with m show ?thesis by simp
  qed
  have "(((224 + cp div 4096) mod 16) * 64 + (128 + ?x mod 64) mod 64) * 64 +
          (128 + cp mod 64) mod 64 = ((?x div 64) * 64 + ?x mod 64) * 64 + cp mod 64"
    using d by (simp add: mod_drop_high div_chain)
  then show "(((224 + cp div 4096) mod 16) * 64 + (128 + ?x mod 64) mod 64) * 64 +
          (128 + cp mod 64) mod 64 = cp"
    by simp
qed

lemma four_byte_arith:
  fixes cp :: nat
  assumes "65536 \<le> cp" "cp < 1114112"
  shows "240 + cp div 262144 < 256" "240 \<le> 240 + cp div 262144" "240 + cp div 262144 \<le> 244"
    "(if 240 + cp div 262144 = 240 then 144 else 128) \<le> 128 + cp div 4096 mod 64"
    "128 + cp div 4096 mod 64 \<le> (if 240 + cp div 262144 = 244 then 143 else 191)"
    "128 + cp div 4096 mod 64 < 256"
    "128 + cp div 64 mod 64 < 256" "128 \<le> 128 + cp div 64 mod 64"
    "128 + cp div 64 mod 64 \<le> 191"
    "128 + cp mod 64 < 256" "128 \<le> 128 + cp mod 64" "128 + cp mod 64 \<le> 191"
    "((((240 + cp div 262144) mod 8) * 64 + (128 + cp div 4096 mod 64) mod 64) * 64 +
       (128 + cp div 64 mod 64) mod 64) * 64 + (128 + cp mod 64) mod 64 = cp"
proof -
  let ?x = "cp div 64"
  let ?y = "cp div 4096"
  have y: "?y = ?x div 64" and z: "cp div 262144 = ?y div 64"
    by (simp_all add: div_mult2_eq [symmetric])
  from assms have d: "cp div 262144 \<le> 4" by simp
  have m: "cp mod 64 < 64" "?x mod 64 < 64" "?y mod 64 < 64" by simp_all
  from d show "240 + cp div 262144 < 256" "240 \<le> 240 + cp div 262144"
    "240 + cp div 262144 \<le> 244"
    by simp_all
  from m show "128 + ?y mod 64 < 256" "128 + ?x mod 64 < 256" "128 \<le> 128 + ?x mod 64"
    "128 + ?x mod 64 \<le> 191" "128 + cp mod 64 < 256" "128 \<le> 128 + cp mod 64"
    "128 + cp mod 64 \<le> 191"
    by simp_all
  show "(if 240 + cp div 262144 = 240 then 144 else 128) \<le> 128 + ?y mod 64"
  proof (cases "cp div 262144 = 0")
    case True
    then have "?y div 64 = 0" by (simp add: z)
    then have "?y mod 64 = ?y" by simp
    moreover from assms(1) have "16 \<le> ?y" by simp
    ultimately show ?thesis using True by simp
  next
    case False
    then show ?thesis by simp
  qed
  show "128 + ?y mod 64 \<le> (if 240 + cp div 262144 = 244 then 143 else 191)"
  proof (cases "cp div 262144 = 4")
    case True
    then have t: "?y div 64 = 4" by (simp add: z)
    from assms(2) have "?y < 272" by simp
    moreover have "?y = 4 * 64 + ?y mod 64"
      using t div_mult_mod_eq [of ?y 64] by simp
    ultimately have "?y mod 64 < 16" by linarith
    with True show ?thesis by simp
  next
    case False
    with m show ?thesis by simp
  qed
  have "cp div 262144 mod 8 = cp div 262144" using d by simp
  then have "((((240 + cp div 262144) mod 8) * 64 + (128 + ?y mod 64) mod 64) * 64 +
       (128 + ?x mod 64) mod 64) * 64 + (128 + cp mod 64) mod 64 =
       (((?y div 64) * 64 + ?y mod 64) * 64 + ?x mod 64) * 64 + cp mod 64"
    by (simp add: mod_drop_high z)
  also have "\<dots> = ((?x div 64) * 64 + ?x mod 64) * 64 + cp mod 64"
    by (simp add: y)
  also have "\<dots> = cp" by simp
  finally show "((((240 + cp div 262144) mod 8) * 64 + (128 + ?y mod 64) mod 64) * 64 +
       (128 + ?x mod 64) mod 64) * 64 + (128 + cp mod 64) mod 64 = cp" .
qed

lemma unat_of_nat_8: "n < 256 \<Longrightarrow> unat (of_nat n :: byte) = n"
  by (simp add: unat_of_nat)

lemma decode_encoded_scalar:
  assumes v: "cp < 1114112" and s: "\<not> (55296 \<le> cp \<and> cp \<le> 57343)"
  shows "utf8_decode 0 0 128 191 (map unat (utf8_bytes cp) @ rest) =
           cp # utf8_decode 0 0 128 191 rest"
proof -
  consider "cp < 128" | "\<not> cp < 128" "cp < 2048" | "\<not> cp < 128" "\<not> cp < 2048" "cp < 65536"
    | "\<not> cp < 128" "\<not> cp < 2048" "\<not> cp < 65536"
    by blast
  then show ?thesis
  proof cases
    case 1
    then have "utf8_bytes cp = [of_nat cp]"
      unfolding utf8_bytes_def by (simp only: if_True)
    moreover from 1 have "unat (of_nat cp :: byte) = cp"
      by (simp only: unat_of_nat_8)
    ultimately have "map unat (utf8_bytes cp) = [cp]"
      by (simp only: list.map)
    with 1 show ?thesis by (simp only: append_Cons append_Nil decode_1)
  next
    case 2
    then have r: "128 \<le> cp" "cp < 2048" by simp_all
    note a = two_byte_arith [OF r]
    from 2 have "utf8_bytes cp = [of_nat (192 + cp div 64), of_nat (128 + cp mod 64)]"
      unfolding utf8_bytes_def by (simp only: if_True if_False)
    then have "map unat (utf8_bytes cp) = [192 + cp div 64, 128 + cp mod 64]"
      by (simp only: list.map unat_of_nat_8 [OF a(1)] unat_of_nat_8 [OF a(5)])
    then show ?thesis
      using decode_2 [OF a(2,3,6,7), of rest]
      by (simp only: append_Cons append_Nil a(4,8))
  next
    case 3
    then have r: "2048 \<le> cp" "cp < 65536" by simp_all
    note a = three_byte_arith [OF r s]
    from 3 have "utf8_bytes cp =
        [of_nat (224 + cp div 4096), of_nat (128 + (cp div 64) mod 64), of_nat (128 + cp mod 64)]"
      unfolding utf8_bytes_def by (simp only: if_True if_False)
    then have "map unat (utf8_bytes cp) =
        [224 + cp div 4096, 128 + cp div 64 mod 64, 128 + cp mod 64]"
      by (simp only: list.map unat_of_nat_8 [OF a(1)] unat_of_nat_8 [OF a(6)]
          unat_of_nat_8 [OF a(7)])
    then show ?thesis
      using decode_3 [OF a(2,3,4,5,8,9), of rest]
      by (simp only: append_Cons append_Nil a(10))
  next
    case 4
    then have r: "65536 \<le> cp" by simp
    note a = four_byte_arith [OF r v]
    from 4 have "utf8_bytes cp =
        [of_nat (240 + cp div 262144), of_nat (128 + (cp div 4096) mod 64),
         of_nat (128 + (cp div 64) mod 64), of_nat (128 + cp mod 64)]"
      unfolding utf8_bytes_def by (simp only: if_True if_False)
    then have "map unat (utf8_bytes cp) =
        [240 + cp div 262144, 128 + cp div 4096 mod 64, 128 + cp div 64 mod 64, 128 + cp mod 64]"
      by (simp only: list.map unat_of_nat_8 [OF a(1)] unat_of_nat_8 [OF a(6)]
          unat_of_nat_8 [OF a(7)] unat_of_nat_8 [OF a(10)])
    then show ?thesis
      using decode_4 [OF a(2,3,4,5,8,9,11,12), of rest]
      by (simp only: append_Cons append_Nil a(13))
  qed
qed

lemma decode_encoded:
  "\<forall>cp \<in> set cps. scalar_value cp \<Longrightarrow>
   utf8_decode 0 0 128 191 (map unat (concat (map utf8_bytes cps))) = cps"
proof (induction cps)
  case Nil
  show ?case by simp
next
  case (Cons cp cps)
  then have "cp < 1114112" "\<not> (55296 \<le> cp \<and> cp \<le> 57343)"
    and r: "utf8_decode 0 0 128 191 (map unat (concat (map utf8_bytes cps))) = cps"
    by (simp_all add: scalar_value_def)
  from decode_encoded_scalar [OF this(1,2)] r show ?case
    by (simp only: list.map concat.simps map_append)
qed

lemma unat_unit_less: "unat (u :: 16 word) < 65536"
  using unsigned_less [of u, where 'a = nat] by simp

lemma pair_scalar:
  assumes "lead_surrogate u" "trail_surrogate v"
  shows "scalar_value (65536 + (unat u - 55296) * 1024 + (unat v - 56320))"
    and "utf16_units (65536 + (unat u - 55296) * 1024 + (unat v - 56320)) = [u, v]"
    and "65536 + (unat u - 55296) * 1024 + (unat v - 56320) \<noteq> 65279"
proof -
  let ?a = "unat u - 55296" and ?b = "unat v - 56320"
  let ?cp = "65536 + ?a * 1024 + ?b"
  from assms have a: "?a \<le> 1023" "55296 + ?a = unat u"
    and b: "?b < 1024" "56320 + ?b = unat v"
    unfolding lead_surrogate_def trail_surrogate_def by linarith+
  from a(1) have "?a * 1024 \<le> 1023 * 1024" by (rule mult_le_mono1)
  with b(1) have "?cp < 1114112" by simp
  then show "scalar_value ?cp" by (simp add: scalar_value_def)
  show "?cp \<noteq> 65279" by simp
  have "?cp - 65536 = ?a * 1024 + ?b" by simp
  with b(1) have "(?cp - 65536) div 1024 = ?a" "(?cp - 65536) mod 1024 = ?b"
    by simp_all
  moreover have "\<not> ?cp < 65536" by simp
  ultimately have "utf16_units ?cp = [of_nat (55296 + ?a), of_nat (56320 + ?b)]"
    unfolding utf16_units_def by (simp only: if_False)
  then show "utf16_units ?cp = [u, v]"
    by (simp only: a(2) b(2) word_of_nat_eq_iff of_nat_unat ucast_id)
qed

lemma single_scalar:
  assumes "\<not> lead_surrogate u" "\<not> trail_surrogate u"
  shows "scalar_value (unat u)" and "utf16_units (unat u) = [u]"
proof -
  from assms unat_unit_less [of u] show "scalar_value (unat u)"
    by (auto simp add: scalar_value_def lead_surrogate_def trail_surrogate_def)
  from unat_unit_less [of u] show "utf16_units (unat u) = [u]"
    by (simp add: utf16_units_def)
qed

lemma wellformed_scalars:
  "isWellFormed t \<Longrightarrow>
   (\<forall>cp \<in> set (scalar_values t). scalar_value cp) \<and>
   concat (map utf16_units (scalar_values t)) = t"
proof (induction t rule: scalar_values.induct)
  case (1 u v vs)
  show ?case
  proof (cases "lead_surrogate u")
    case True
    with 1 show ?thesis by (simp add: pair_scalar)
  next
    case False
    with 1 show ?thesis by (simp add: single_scalar)
  qed
next
  case (2 u)
  then show ?case by (simp add: single_scalar)
next
  case 3
  show ?case by simp
qed

lemma unit_eq_BOM: "(u :: 16 word) = 65279 \<longleftrightarrow> unat u = 65279"
  by (simp add: word_unat_eq_iff)

lemma strip_BOM_scalars:
  assumes "t = [] \<or> hd t \<noteq> 65279"
  shows "strip_BOM (scalar_values t) = scalar_values t"
proof (cases t rule: scalar_values.cases)
  case (1 u v vs)
  with assms have "unat u \<noteq> 65279" by (simp add: unit_eq_BOM)
  with 1 show ?thesis by (simp add: strip_BOM_def pair_scalar(3))
next
  case (2 u)
  with assms have "unat u \<noteq> 65279" by (simp add: unit_eq_BOM)
  with 2 show ?thesis by (simp add: strip_BOM_def)
next
  case 3
  then show ?thesis by (simp add: strip_BOM_def)
qed

lemma text_round_trip:
  assumes "isWellFormed t" and "t = [] \<or> hd t \<noteq> 65279"
  shows "TextDecoder_decode (TextEncoder_encode t) = t"
proof -
  from wellformed_scalars [OF assms(1)]
  have s: "\<forall>cp \<in> set (scalar_values t). scalar_value cp"
    and u: "concat (map utf16_units (scalar_values t)) = t"
    by simp_all
  from decode_encoded [OF s] strip_BOM_scalars [OF assms(2)] u show ?thesis
    by (simp only: TextDecoder_decode_def TextEncoder_encode_def)
qed

subsection \<open>Reading back what was written\<close>

lemma SecurityState_update_all:
  "(st :: SecurityState)\<lparr>count := c, lockoutUntil := u, logs := l\<rparr> =
     \<lparr>count = c, lockoutUntil = u, logs = l\<rparr>"
  by (cases st) simp

lemma updateSecurityState_twice [simp]:
  "updateSecurityState s (updateSecurityState s' ls) = updateSecurityState s ls"
  by (simp add: updateSecurityState_def)

lemma deriveKey_encoded:
  "deriveKey P password (b64_encode (map unat bytes)) =
     Inr (CryptoKey (pbkdf2 P (TextEncoder_encode password) bytes 100000 256))"
  by (simp add: deriveKey_def base64ToBuffer_encode importPassword_def subtle_deriveKey_def)

lemma initVault_reads:
  "getMetadata (initVault m ls) = Inr (Some m)"
  "getEntries (initVault m ls) = Inr []"
  "getSecurityState (initVault m ls) = Inr \<lparr>count = 0, lockoutUntil = 0, logs = []\<rparr>"
  "hasVault (initVault m ls)"
  by (simp_all add: initVault_def getMetadata_def getEntries_def getSecurityState_def
      hasVault_def JSON_stringify_def)

text \<open>The three records \<open>initVault\<close> leaves under the keys of \<open>DB_KEYS\<close>.\<close>

lemma initVault_stores:
  "secure_vault_metadata (initVault m ls) = Some (Json m)"
  "secure_vault_entries (initVault m ls) = Some (Json [])"
  "secure_vault_attempts (initVault m ls) =
     Some (Json \<lparr>count = 0, lockoutUntil = 0, logs = []\<rparr>)"
  by (simp_all add: initVault_def JSON_stringify_def)

section \<open>The four ways through \<open>loginUser\<close>\<close>

lemma loginUser_locked:
  assumes "getSecurityState ls = Inr st" and "now < lockoutUntil st"
  shows "loginUser P now password ls =
           (ls, Inr \<lparr>success = False, key = None,
                     error = Some (lit ''Account locked. Try again in '' @
                                   String_int (Math_ceil_div (lockoutUntil st - now) 1000) @
                                   lit '' seconds.'')\<rparr>)"
  using assms by (simp add: loginUser_def)

lemma loginUser_no_metadata:
  assumes "getSecurityState ls = Inr st" and "lockoutUntil st \<le> now"
    and "getMetadata ls = Inr None"
  shows "loginUser P now password ls =
           (ls, Inr \<lparr>success = False, key = None,
                     error = Some (lit ''Vault corrupted or missing.'')\<rparr>)"
  using assms by (simp add: loginUser_def)

lemma loginUser_match:
  assumes "getSecurityState ls = Inr st" and "lockoutUntil st \<le> now"
    and "getMetadata ls = Inr (Some m)"
    and "hashPassword P password (salt m) = Inr (authHash m)"
  shows "loginUser P now password ls =
           (updateSecurityState
              (st\<lparr>count := 0, lockoutUntil := 0,
                  logs := logs st @ [\<lparr>timestamp = now, success = True\<rparr>]\<rparr>) ls,
            case deriveKey P password (salt m) of
              Inl e \<Rightarrow> Inl e
            | Inr k \<Rightarrow> Inr \<lparr>success = True, key = Some k, error = None\<rparr>)"
  using assms by (simp add: loginUser_def split: sum.splits)

lemma loginUser_mismatch:
  assumes "getSecurityState ls = Inr st" and "lockoutUntil st \<le> now"
    and "getMetadata ls = Inr (Some m)"
    and "hashPassword P password (salt m) \<noteq> Inr (authHash m)"
  shows "loginUser P now password ls =
           (updateSecurityState
              (st\<lparr>count := count st + 1,
                  lockoutUntil := (if 3 \<le> count st + 1 then now + 30000 else 0),
                  logs := logs st @ [\<lparr>timestamp = now, success = False\<rparr>]\<rparr>) ls,
            Inr \<lparr>success = False, key = None,
                 error = Some (if 3 \<le> count st + 1
                               then lit ''Too many failed attempts. Account locked for '' @
                                    String_int 30 @ lit '' seconds.''
                               else lit ''Invalid password.'')\<rparr>)"
  using assms
  by (simp add: loginUser_def hashPassword_eq MAX_ATTEMPTS_def LOCKOUT_DURATION_MS_def Let_def)

lemma getLockoutStatus_locked:
  "getSecurityState ls = Inr st \<Longrightarrow> now < lockoutUntil st \<Longrightarrow>
   getLockoutStatus now ls =
     Inr \<lparr>isLocked = True, remaining = Math_ceil_div (lockoutUntil st - now) 1000\<rparr>"
  by (simp add: getLockoutStatus_def)

lemma getLockoutStatus_unlocked:
  "getSecurityState ls = Inr st \<Longrightarrow> lockoutUntil st \<le> now \<Longrightarrow>
   getLockoutStatus now ls = Inr \<lparr>isLocked = False, remaining = 0\<rparr>"
  by (simp add: getLockoutStatus_def)

section \<open>Evaluations on the concrete vault\<close>

lemma replicate_numeral: "replicate (numeral k) x = x # replicate (pred_numeral k) x"
  by (simp add: numeral_eq_Suc)

lemmas eval_text = TextEncoder_encode_def lit_def utf8_bytes_def lead_surrogate_def trail_surrogate_def
lemmas eval_b64 = b64_encode_def b64_char_def b64_code_def b64_pad_def replicate_numeral

lemma example_hash_right:
  "hashPassword example_platform (lit ''CorrectHorse1'') (salt example_metadata) =
     Inr (authHash example_metadata)"
  by (simp add: hashPassword_eq example_platform_def example_metadata_def eval_text eval_b64)

lemma example_hash_wrong:
  "hashPassword example_platform (lit ''wrongpass'') (salt example_metadata) \<noteq>
     Inr (authHash example_metadata)"
  by (simp add: hashPassword_eq example_platform_def example_metadata_def eval_text eval_b64)

lemma example_deriveKey:
  "deriveKey example_platform (lit ''CorrectHorse1'') (salt example_metadata) = Inr example_key"
  by (simp add: deriveKey_def base64ToBuffer_def atob_def strip_padding_def ascii_whitespace_def
    b64_index_def b64_value_def b64_pad_def example_key_def importPassword_def subtle_deriveKey_def
    example_platform_def example_metadata_def eval_text replicate_numeral)

lemma example_state [simp]:
  "getSecurityState example_vault = Inr \<lparr>count = 0, lockoutUntil = 0, logs = []\<rparr>"
  by (simp add: getSecurityState_def example_vault_def)

lemma example_meta [simp]: "getMetadata example_vault = Inr (Some example_metadata)"
  by (simp add: getMetadata_def example_vault_def)

lemma locked_state_read [simp]: "getSecurityState locked_vault = Inr locked_state"
  by (simp add: getSecurityState_def locked_vault_def)

lemma locked_meta [simp]: "getMetadata locked_vault = Inr (Some example_metadata)"
  by (simp add: getMetadata_def locked_vault_def example_vault_def)

lemma no_vault_state [simp]:
  "getSecurityState no_vault = Inr \<lparr>count = 0, lockoutUntil = 0, logs = []\<rparr>"
  by (simp add: getSecurityState_def no_vault_def)

lemma no_vault_meta [simp]: "getMetadata no_vault = Inr None"
  by (simp add: getMetadata_def no_vault_def)

lemma example_vault_as_update:
  "example_vault = updateSecurityState \<lparr>count = 0, lockoutUntil = 0, logs = []\<rparr> example_vault"
  by (simp add: updateSecurityState_def example_vault_def JSON_stringify_def)

lemma locked_vault_as_update:
  "locked_vault = updateSecurityState locked_state example_vault"
  by (simp add: updateSecurityState_def locked_vault_def JSON_stringify_def)

lemma example_wrong_step:
  assumes "lockoutUntil s \<le> now"
  shows "loginUser example_platform now (lit ''wrongpass'') (updateSecurityState s example_vault) =
           (updateSecurityState
              \<lparr>count = count s + 1,
               lockoutUntil = (if 3 \<le> count s + 1 then now + 30000 else 0),
               logs = logs s @ [\<lparr>timestamp = now, success = False\<rparr>]\<rparr> example_vault,
            Inr \<lparr>success = False, key = None,
                 error = Some (if 3 \<le> count s + 1
                               then lit ''Too many failed attempts. Account locked for '' @
                                    String_int 30 @ lit '' seconds.''
                               else lit ''Invalid password.'')\<rparr>)"
proof -
  have m: "getMetadata (updateSecurityState s example_vault) = Inr (Some example_metadata)"
    by simp
  show ?thesis
    using loginUser_mismatch [OF getSecurityState_update assms m example_hash_wrong]
    by (simp add: SecurityState_update_all)
qed

lemma example_login_1:
  "fst (loginUser example_platform 200 (lit ''wrongpass'') example_vault) =
     updateSecurityState
        \<lparr>count = 1, lockoutUntil = 0, logs = [\<lparr>timestamp = 200, success = False\<rparr>]\<rparr>
        example_vault"
  using example_wrong_step [of "\<lparr>count = 0, lockoutUntil = 0, logs = []\<rparr>" 200]
  by (simp flip: example_vault_as_update)

lemma example_login_2:
  "fst (loginUser example_platform 600 (lit ''wrongpass'')
     (fst (loginUser example_platform 200 (lit ''wrongpass'') example_vault))) =
     updateSecurityState
        \<lparr>count = 2, lockoutUntil = 0,
          logs = [\<lparr>timestamp = 200, success = False\<rparr>, \<lparr>timestamp = 600, success = False\<rparr>]\<rparr>
        example_vault"
  using example_wrong_step
    [of "\<lparr>count = 1, lockoutUntil = 0, logs = [\<lparr>timestamp = 200, success = False\<rparr>]\<rparr>" 600]
  by (simp add: example_login_1)

lemma example_login_3:
  "fst (loginUser example_platform 1000 (lit ''wrongpass'')
     (fst (loginUser example_platform 600 (lit ''wrongpass'')
        (fst (loginUser example_platform 200 (lit ''wrongpass'') example_vault))))) =
   locked_vault"
  using example_wrong_step
    [of "\<lparr>count = 2, lockoutUntil = 0,
          logs = [\<lparr>timestamp = 200, success = False\<rparr>, \<lparr>timestamp = 600, success = False\<rparr>]\<rparr>"
        1000]
  by (simp add: example_login_2 locked_vault_as_update locked_state_def)

lemma example_bytes:
  "map example_entropy [0..<16] =
     [3, 10, 17, 24, 31, 38, 45, 52, 59, 66, 73, 80, 87, 94, 101, 108]"
proof -
  have "[0..<16] = [0, 1, 2, 3, 4, 5, 6, 7, 8, 9, 10, 11, 12, 13, 14, 15 :: nat]"
    by code_simp
  then show ?thesis by (simp add: example_entropy_def)
qed

lemma example_salt:
  "b64_encode (map unat (map example_entropy [0..<16])) = salt example_metadata"
  unfolding example_bytes by (simp add: example_metadata_def lit_def eval_b64)

lemma example_aead:
  "\<forall>k n d. aes_gcm_decrypt example_platform k n (aes_gcm_encrypt example_platform k n d) = Some d"
  by (simp add: example_platform_def)

lemmas eval_decode = decryptData_def base64ToBuffer_def atob_def strip_padding_def
  ascii_whitespace_def b64_index_def b64_value_def b64_pad_def TextDecoder_decode_def
  strip_BOM_def utf16_units_def

lemma example_nonce:
  "map example_entropy [0..<12] = [3, 10, 17, 24, 31, 38, 45, 52, 59, 66, 73, 80]"
proof -
  have "[0..<12] = [0, 1, 2, 3, 4, 5, 6, 7, 8, 9, 10, 11 :: nat]"
    by code_simp
  then show ?thesis by (simp add: example_entropy_def)
qed

lemma example_encrypt_BOM:
  "fst (encryptData example_platform example_entropy [65279] example_key) =
     Inr \<lparr>ciphertext = lit ''77u/Q29ycmVjdEhvcnNlMQMKERgfJi00O0JJUFdeZWwAAAADChEYHyYtNDtCSVA='',
          EncryptedData.iv = lit ''AwoRGB8mLTQ7QklQ''\<rparr>"
  by (simp add: encryptData_def bufferToBase64_eq getRandomValues_def example_nonce
      example_platform_def example_key_def eval_text eval_b64)

lemma example_decrypt_BOM:
  "decryptData example_platform
     (lit ''77u/Q29ycmVjdEhvcnNlMQMKERgfJi00O0JJUFdeZWwAAAADChEYHyYtNDtCSVA='')
     (lit ''AwoRGB8mLTQ7QklQ'') example_key = Inr []"
  by (simp add: eval_decode example_platform_def example_key_def lit_def)

lemma example_encrypt_lone:
  "fst (encryptData example_platform example_entropy [55296] example_key) =
     Inr \<lparr>ciphertext = lit ''77+9Q29ycmVjdEhvcnNlMQMKERgfJi00O0JJUFdeZWwAAAADChEYHyYtNDtCSVA='',
          EncryptedData.iv = lit ''AwoRGB8mLTQ7QklQ''\<rparr>"
  by (simp add: encryptData_def bufferToBase64_eq getRandomValues_def example_nonce
      example_platform_def example_key_def eval_text eval_b64)

lemma example_decrypt_lone:
  "decryptData example_platform
     (lit ''77+9Q29ycmVjdEhvcnNlMQMKERgfJi00O0JJUFdeZWwAAAADChEYHyYtNDtCSVA='')
     (lit ''AwoRGB8mLTQ7QklQ'') example_key = Inr [65533]"
  by (simp add: eval_decode example_platform_def example_key_def lit_def)

lemma example_encrypt_text:
  "fst (encryptData example_platform example_entropy (lit ''p@ss'') example_key) =
     Inr \<lparr>ciphertext = lit ''cEBzc0NvcnJlY3RIb3JzZTEDChEYHyYtNDtCSVBXXmVsAAAAAwoRGB8mLTQ7QklQ'',
          EncryptedData.iv = lit ''AwoRGB8mLTQ7QklQ''\<rparr>"
  by (simp add: encryptData_def bufferToBase64_eq getRandomValues_def example_nonce
      example_platform_def example_key_def eval_text eval_b64)

section \<open>Three failed logins\<close>

text \<open>
  C1. From a zeroed \<open>SecurityState\<close> of an existing vault, three consecutive logins
  whose password hash does not match, at any instants \<open>t1\<close>, \<open>t2\<close>, \<open>t3\<close> that
  \<open>Date.now()\<close> can return: the first two return \<open>Invalid password.\<close>, the third the
  lockout error, and the stored state has \<open>count = 3\<close> and
  \<open>lockoutUntil = t3 + 30000\<close>. \<open>getLockoutStatus\<close> reports locked at every instant
  before \<open>t3 + 30000\<close> and unlocked from then on, and from then on a login with a
  password whose hash matches returns success with the derived key.
\<close>

theorem three_failures_lock:
  assumes meta: "getMetadata ls0 = Inr (Some m)"
    and zero: "getSecurityState ls0 = Inr \<lparr>count = 0, lockoutUntil = 0, logs = []\<rparr>"
    and t1: "0 \<le> t1" and t2: "0 \<le> t2" and t3: "0 \<le> t3"
    and w1: "hashPassword P p1 (salt m) \<noteq> Inr (authHash m)"
    and w2: "hashPassword P p2 (salt m) \<noteq> Inr (authHash m)"
    and w3: "hashPassword P p3 (salt m) \<noteq> Inr (authHash m)"
    and c1: "loginUser P t1 p1 ls0 = (ls1, r1)"
    and c2: "loginUser P t2 p2 ls1 = (ls2, r2)"
    and c3: "loginUser P t3 p3 ls2 = (ls3, r3)"
  shows "r1 = Inr \<lparr>success = False, key = None, error = Some (lit ''Invalid password.'')\<rparr>
       \<and> r2 = Inr \<lparr>success = False, key = None, error = Some (lit ''Invalid password.'')\<rparr>
       \<and> r3 = Inr \<lparr>success = False, key = None,
                   error = Some (lit ''Too many failed attempts. Account locked for 30 seconds.'')\<rparr>
       \<and> getSecurityState ls3 =
             Inr \<lparr>count = 3, lockoutUntil = t3 + 30000,
                  logs = [\<lparr>timestamp = t1, success = False\<rparr>,
                          \<lparr>timestamp = t2, success = False\<rparr>,
                          \<lparr>timestamp = t3, success = False\<rparr>]\<rparr>
       \<and> (\<forall>t. t < t3 + 30000 \<longrightarrow>
              getLockoutStatus t ls3 =
                Inr \<lparr>isLocked = True, remaining = Math_ceil_div (t3 + 30000 - t) 1000\<rparr>)
       \<and> (\<forall>t. t3 + 30000 \<le> t \<longrightarrow>
              getLockoutStatus t ls3 = Inr \<lparr>isLocked = False, remaining = 0\<rparr>)
       \<and> (\<forall>t p k. t3 + 30000 \<le> t \<longrightarrow>
              hashPassword P p (salt m) = Inr (authHash m) \<longrightarrow>
              deriveKey P p (salt m) = Inr k \<longrightarrow>
              snd (loginUser P t p ls3) = Inr \<lparr>success = True, key = Some k, error = None\<rparr>)"
proof -
  let ?s1 = "\<lparr>count = 1, lockoutUntil = 0, logs = [\<lparr>timestamp = t1, success = False\<rparr>]\<rparr>"
  let ?s2 = "\<lparr>count = 2, lockoutUntil = 0,
              logs = [\<lparr>timestamp = t1, success = False\<rparr>, \<lparr>timestamp = t2, success = False\<rparr>]\<rparr>"
  let ?s3 = "\<lparr>count = 3, lockoutUntil = t3 + 30000,
              logs = [\<lparr>timestamp = t1, success = False\<rparr>, \<lparr>timestamp = t2, success = False\<rparr>,
                      \<lparr>timestamp = t3, success = False\<rparr>]\<rparr>"
  have l1: "ls1 = updateSecurityState ?s1 ls0"
    and r1: "r1 = Inr \<lparr>success = False, key = None, error = Some (lit ''Invalid password.'')\<rparr>"
    using loginUser_mismatch [OF zero _ meta w1, of t1] t1 c1 by simp_all
  have st1: "getSecurityState ls1 = Inr ?s1" and m1: "getMetadata ls1 = Inr (Some m)"
    by (simp_all add: l1 meta)
  have l2: "ls2 = updateSecurityState ?s2 ls1"
    and r2: "r2 = Inr \<lparr>success = False, key = None, error = Some (lit ''Invalid password.'')\<rparr>"
    using loginUser_mismatch [OF st1 _ m1 w2, of t2] t2 c2 by simp_all
  have st2: "getSecurityState ls2 = Inr ?s2" and m2: "getMetadata ls2 = Inr (Some m)"
    by (simp_all add: l2 m1)
  have l3: "ls3 = updateSecurityState ?s3 ls2"
    and r3: "r3 = Inr \<lparr>success = False, key = None,
               error = Some (lit ''Too many failed attempts. Account locked for 30 seconds.'')\<rparr>"
    using loginUser_mismatch [OF st2 _ m2 w3, of t3] t3 c3
    by (simp_all add: String_int_30 lit_def)
  have st3: "getSecurityState ls3 = Inr ?s3" and m3: "getMetadata ls3 = Inr (Some m)"
    by (simp_all add: l3 m2)
  have locked: "\<forall>t. t < t3 + 30000 \<longrightarrow>
      getLockoutStatus t ls3 =
        Inr \<lparr>isLocked = True, remaining = Math_ceil_div (t3 + 30000 - t) 1000\<rparr>"
    using getLockoutStatus_locked [OF st3] by simp
  have unlocked: "\<forall>t. t3 + 30000 \<le> t \<longrightarrow>
      getLockoutStatus t ls3 = Inr \<lparr>isLocked = False, remaining = 0\<rparr>"
    using getLockoutStatus_unlocked [OF st3] by simp
  have again: "\<forall>t p k. t3 + 30000 \<le> t \<longrightarrow>
      hashPassword P p (salt m) = Inr (authHash m) \<longrightarrow>
      deriveKey P p (salt m) = Inr k \<longrightarrow>
      snd (loginUser P t p ls3) = Inr \<lparr>success = True, key = Some k, error = None\<rparr>"
  proof (intro allI impI)
    fix t p k
    assume "t3 + 30000 \<le> t" and h: "hashPassword P p (salt m) = Inr (authHash m)"
      and k: "deriveKey P p (salt m) = Inr k"
    then have "lockoutUntil ?s3 \<le> t" by simp
    from loginUser_match [OF st3 this m3 h] k
    show "snd (loginUser P t p ls3) = Inr \<lparr>success = True, key = Some k, error = None\<rparr>"
      by simp
  qed
  from r1 r2 r3 st3 locked unlocked again show ?thesis by blast
qed

theorem three_failures_lock_witness:
  "getSecurityState locked_vault = Inr locked_state
   \<and> getLockoutStatus 30999 locked_vault = Inr \<lparr>isLocked = True, remaining = 1\<rparr>
   \<and> getLockoutStatus 31000 locked_vault = Inr \<lparr>isLocked = False, remaining = 0\<rparr>
   \<and> snd (loginUser example_platform 31000 (lit ''CorrectHorse1'') locked_vault) =
       Inr \<lparr>success = True, key = Some example_key, error = None\<rparr>"
proof -
  let ?w = "lit ''wrongpass''"
  let ?ls1 = "fst (loginUser example_platform 200 ?w example_vault)"
  let ?ls2 = "fst (loginUser example_platform 600 ?w ?ls1)"
  have c1: "loginUser example_platform 200 ?w example_vault =
              (?ls1, snd (loginUser example_platform 200 ?w example_vault))"
    by simp
  have c2: "loginUser example_platform 600 ?w ?ls1 =
              (?ls2, snd (loginUser example_platform 600 ?w ?ls1))"
    by simp
  have c3: "loginUser example_platform 1000 ?w ?ls2 =
              (locked_vault, snd (loginUser example_platform 1000 ?w ?ls2))"
    using example_login_3 by (simp add: prod_eq_iff)
  have t: "(0::int) \<le> 200" "(0::int) \<le> 600" "(0::int) \<le> 1000"
    by simp_all
  note main = three_failures_lock [OF example_meta example_state t
      example_hash_wrong example_hash_wrong example_hash_wrong c1 c2 c3]
  from main have a: "getSecurityState locked_vault = Inr locked_state"
    by (simp add: locked_state_def)
  from main have "getLockoutStatus 30999 locked_vault =
      Inr \<lparr>isLocked = True, remaining = Math_ceil_div (1000 + 30000 - 30999) 1000\<rparr>"
    by simp
  then have b: "getLockoutStatus 30999 locked_vault = Inr \<lparr>isLocked = True, remaining = 1\<rparr>"
    by (simp add: Math_ceil_div_def)
  from main have c: "getLockoutStatus 31000 locked_vault = Inr \<lparr>isLocked = False, remaining = 0\<rparr>"
    by simp
  from main example_hash_right example_deriveKey
  have d: "snd (loginUser example_platform 31000 (lit ''CorrectHorse1'') locked_vault) =
       Inr \<lparr>success = True, key = Some example_key, error = None\<rparr>"
    by simp
  from a b c d show ?thesis by simp
qed

section \<open>Login during a lockout\<close>

text \<open>
  C2. While the stored \<open>lockoutUntil\<close> is greater than the current time, \<open>loginUser\<close>
  leaves the storage as it is and returns the lockout error with the remaining seconds,
  \<open>Math.ceil((lockoutUntil - now) / 1000)\<close>, at least one. The result mentions neither the
  password nor the platform: it is the same for every password, the right one included,
  and for every digest function, so no hash enters it.
\<close>

theorem login_during_lockout:
  assumes "getSecurityState ls = Inr st" and "now < lockoutUntil st"
  shows "loginUser P now password ls =
           (ls, Inr \<lparr>success = False, key = None,
                     error = Some (lit ''Account locked. Try again in '' @
                                   String_int (Math_ceil_div (lockoutUntil st - now) 1000) @
                                   lit '' seconds.'')\<rparr>)
         \<and> 1 \<le> Math_ceil_div (lockoutUntil st - now) 1000
         \<and> loginUser P' now password' ls = loginUser P now password ls"
  using assms by (simp add: loginUser_locked Math_ceil_div_pos)

theorem login_during_lockout_witness:
  "loginUser example_platform 1500 (lit ''CorrectHorse1'') locked_vault =
     (locked_vault,
      Inr \<lparr>success = False, key = None,
           error = Some (lit ''Account locked. Try again in 30 seconds.'')\<rparr>)"
proof -
  have h: "(1500::int) < lockoutUntil locked_state"
    by (simp add: locked_state_def)
  have r: "Math_ceil_div (lockoutUntil locked_state - 1500) 1000 = 30"
    by (simp add: locked_state_def Math_ceil_div_def)
  show ?thesis
    using login_during_lockout [OF locked_state_read h, of example_platform "lit ''CorrectHorse1''"]
    by (simp add: r String_int_30 lit_def)
qed

section \<open>A successful login\<close>

text \<open>
  C3. A login outside a lockout whose password hash equals the stored \<open>authHash\<close>
  writes the state with \<open>count = 0\<close>, \<open>lockoutUntil = 0\<close> and the former log followed by
  one success entry, leaves metadata and entries alone, and returns success with the key
  that \<open>deriveKey\<close> gives for the password and the stored salt. Reading the state back
  from the storage the call leaves gives the new state.
\<close>

theorem login_success:
  assumes "getSecurityState ls = Inr st" and "lockoutUntil st \<le> now"
    and "getMetadata ls = Inr (Some m)"
    and "hashPassword P password (salt m) = Inr (authHash m)"
    and "deriveKey P password (salt m) = Inr k"
    and "loginUser P now password ls = (ls', r)"
  shows "r = Inr \<lparr>success = True, key = Some k, error = None\<rparr>
       \<and> ls' = updateSecurityState
                 \<lparr>count = 0, lockoutUntil = 0,
                  logs = logs st @ [\<lparr>timestamp = now, success = True\<rparr>]\<rparr> ls
       \<and> getSecurityState ls' =
           Inr \<lparr>count = 0, lockoutUntil = 0,
                logs = logs st @ [\<lparr>timestamp = now, success = True\<rparr>]\<rparr>
       \<and> getMetadata ls' = getMetadata ls
       \<and> getEntries ls' = getEntries ls"
  using loginUser_match [OF assms(1-4)] assms(5,6)
  by (auto simp add: SecurityState_update_all)

theorem login_success_witness:
  "loginUser example_platform 31000 (lit ''CorrectHorse1'') locked_vault =
     (updateSecurityState
        \<lparr>count = 0, lockoutUntil = 0,
         logs = [\<lparr>timestamp = 200, success = False\<rparr>, \<lparr>timestamp = 600, success = False\<rparr>,
                 \<lparr>timestamp = 1000, success = False\<rparr>, \<lparr>timestamp = 31000, success = True\<rparr>]\<rparr>
        locked_vault,
      Inr \<lparr>success = True, key = Some example_key, error = None\<rparr>)"
proof -
  have h: "lockoutUntil locked_state \<le> 31000"
    by (simp add: locked_state_def)
  have c: "loginUser example_platform 31000 (lit ''CorrectHorse1'') locked_vault =
      (fst (loginUser example_platform 31000 (lit ''CorrectHorse1'') locked_vault),
       snd (loginUser example_platform 31000 (lit ''CorrectHorse1'') locked_vault))"
    by simp
  from login_success [OF locked_state_read h locked_meta example_hash_right example_deriveKey c]
  show ?thesis
    by (simp add: prod_eq_iff locked_state_def)
qed

section \<open>What a login writes\<close>




section \<open>The messages of a failed login\<close>

lemma messages_differ:
  "lit ''Vault corrupted or missing.'' \<noteq> lit ''Invalid password.''"
  "lit ''Vault corrupted or missing.'' \<noteq>
     lit ''Too many failed attempts. Account locked for '' @ String_int 30 @ lit '' seconds.''"
  by (simp_all add: lit_def)

text \<open>
  C5, as the code has it. The claim is that a failure by hash mismatch and a failure for
  another internal reason return the same message. With the metadata gone the message is
  \<open>Vault corrupted or missing.\<close>, with a wrong password it is \<open>Invalid password.\<close>
\<close>

theorem login_message_counterexample:
  "snd (loginUser example_platform 200 (lit ''wrongpass'') example_vault) =
     Inr \<lparr>success = False, key = None, error = Some (lit ''Invalid password.'')\<rparr>
   \<and> snd (loginUser example_platform 200 (lit ''wrongpass'') no_vault) =
     Inr \<lparr>success = False, key = None, error = Some (lit ''Vault corrupted or missing.'')\<rparr>
   \<and> lit ''Invalid password.'' \<noteq> lit ''Vault corrupted or missing.''"
proof -
  have z: "lockoutUntil \<lparr>count = 0, lockoutUntil = 0, logs = []\<rparr> \<le> 200"
    by simp
  from loginUser_mismatch [OF example_state z example_meta example_hash_wrong]
  have a: "snd (loginUser example_platform 200 (lit ''wrongpass'') example_vault) =
     Inr \<lparr>success = False, key = None, error = Some (lit ''Invalid password.'')\<rparr>"
    by simp
  from loginUser_no_metadata [OF no_vault_state z no_vault_meta]
  have b: "snd (loginUser example_platform 200 (lit ''wrongpass'') no_vault) =
     Inr \<lparr>success = False, key = None, error = Some (lit ''Vault corrupted or missing.'')\<rparr>"
    by simp
  from a b messages_differ(1) show ?thesis by simp
qed

text \<open>
  C5, amended. Outside a lockout, a login failing by hash mismatch returns a message fixed
  by the failure count alone, \<open>Invalid password.\<close> below the threshold and the lockout
  message when the count reaches it, whatever the password and the stored hash; a login
  that finds no metadata returns \<open>Vault corrupted or missing.\<close>, which is neither of
  them.
\<close>

theorem login_failure_messages:
  assumes "getSecurityState ls = Inr st" and "lockoutUntil st \<le> now"
  shows "(getMetadata ls = Inr (Some m) \<and> hashPassword P password (salt m) \<noteq> Inr (authHash m) \<longrightarrow>
            snd (loginUser P now password ls) =
              Inr \<lparr>success = False, key = None,
                   error = Some (if 3 \<le> count st + 1
                                 then lit ''Too many failed attempts. Account locked for 30 seconds.''
                                 else lit ''Invalid password.'')\<rparr>)
       \<and> (getMetadata ls = Inr None \<longrightarrow>
            snd (loginUser P now password ls) =
              Inr \<lparr>success = False, key = None,
                   error = Some (lit ''Vault corrupted or missing.'')\<rparr>)
       \<and> lit ''Vault corrupted or missing.'' \<noteq> lit ''Invalid password.''
       \<and> lit ''Vault corrupted or missing.'' \<noteq>
           lit ''Too many failed attempts. Account locked for 30 seconds.''"
proof -
  have a: "snd (loginUser P now password ls) =
              Inr \<lparr>success = False, key = None,
                   error = Some (if 3 \<le> count st + 1
                                 then lit ''Too many failed attempts. Account locked for 30 seconds.''
                                 else lit ''Invalid password.'')\<rparr>"
    if "getMetadata ls = Inr (Some m)" and "hashPassword P password (salt m) \<noteq> Inr (authHash m)"
    using loginUser_mismatch [OF assms that] by (simp add: String_int_30 lit_def)
  have b: "snd (loginUser P now password ls) =
              Inr \<lparr>success = False, key = None,
                   error = Some (lit ''Vault corrupted or missing.'')\<rparr>"
    if "getMetadata ls = Inr None"
    using loginUser_no_metadata [OF assms that] by simp
  have c: "lit ''Vault corrupted or missing.'' \<noteq> lit ''Invalid password.''"
    and d: "lit ''Vault corrupted or missing.'' \<noteq>
           lit ''Too many failed attempts. Account locked for 30 seconds.''"
    by (simp_all add: lit_def)
  from a b c d show ?thesis by blast
qed

theorem login_failure_messages_witness:
  "snd (loginUser example_platform 31000 (lit ''wrongpass'') locked_vault) =
     Inr \<lparr>success = False, key = None,
          error = Some (lit ''Too many failed attempts. Account locked for 30 seconds.'')\<rparr>
   \<and> snd (loginUser example_platform 31000 (lit ''wrongpass'') no_vault) =
     Inr \<lparr>success = False, key = None, error = Some (lit ''Vault corrupted or missing.'')\<rparr>"
proof -
  have u: "lockoutUntil locked_state \<le> 31000" and c: "count locked_state = 3"
    by (simp_all add: locked_state_def)
  from login_failure_messages [OF locked_state_read u, where m = example_metadata
      and P = example_platform and password = "lit ''wrongpass''"] c example_hash_wrong
  have a: "snd (loginUser example_platform 31000 (lit ''wrongpass'') locked_vault) =
     Inr \<lparr>success = False, key = None,
          error = Some (lit ''Too many failed attempts. Account locked for 30 seconds.'')\<rparr>"
    by simp
  have z: "lockoutUntil \<lparr>count = 0, lockoutUntil = 0, logs = []\<rparr> \<le> 31000"
    by simp
  from login_failure_messages [OF no_vault_state z, where P = example_platform
      and password = "lit ''wrongpass''"]
  have b: "snd (loginUser example_platform 31000 (lit ''wrongpass'') no_vault) =
     Inr \<lparr>success = False, key = None, error = Some (lit ''Vault corrupted or missing.'')\<rparr>"
    by simp
  from a b show ?thesis by simp
qed

section \<open>The boundary instant\<close>

lemma loginUser_not_locked:
  assumes "getSecurityState ls = Inr st" and "lockoutUntil st \<le> now"
  shows "snd (loginUser P now password ls) \<noteq>
           Inr \<lparr>success = False, key = None,
                error = Some (lit ''Account locked. Try again in '' @ r)\<rparr>"
proof (cases "getMetadata ls")
  case (Inl e)
  with assms show ?thesis by (simp add: loginUser_def)
next
  case (Inr mo)
  show ?thesis
  proof (cases mo)
    case None
    with Inr loginUser_no_metadata [OF assms, of P password] show ?thesis
      by (simp add: lit_def)
  next
    case (Some m)
    with Inr have g: "getMetadata ls = Inr (Some m)" by simp
    show ?thesis
    proof (cases "hashPassword P password (salt m) = Inr (authHash m)")
      case True
      from loginUser_match [OF assms g True] show ?thesis
        by (simp split: sum.splits)
    next
      case False
      from loginUser_mismatch [OF assms g False] show ?thesis
        by (simp add: lit_def)
    qed
  qed
qed

text \<open>
  C9, as the code has it. The claim is that at the instant \<open>now = lockoutUntil\<close> a login
  is still treated as locked. With \<open>lockoutUntil = 31000\<close> and \<open>now = 31000\<close>,
  \<open>getLockoutStatus\<close> reports unlocked and the right password logs in.
\<close>

theorem boundary_counterexample:
  "getLockoutStatus 31000 locked_vault = Inr \<lparr>isLocked = False, remaining = 0\<rparr>
   \<and> snd (loginUser example_platform 31000 (lit ''CorrectHorse1'') locked_vault) =
       Inr \<lparr>success = True, key = Some example_key, error = None\<rparr>
   \<and> lockoutUntil locked_state = 31000"
proof -
  have u: "lockoutUntil locked_state \<le> 31000" and e: "lockoutUntil locked_state = 31000"
    by (simp_all add: locked_state_def)
  from getLockoutStatus_unlocked [OF locked_state_read u]
  have a: "getLockoutStatus 31000 locked_vault = Inr \<lparr>isLocked = False, remaining = 0\<rparr>" .
  from loginUser_match [OF locked_state_read u locked_meta example_hash_right] example_deriveKey
  have b: "snd (loginUser example_platform 31000 (lit ''CorrectHorse1'') locked_vault) =
       Inr \<lparr>success = True, key = Some example_key, error = None\<rparr>"
    by simp
  from a b e show ?thesis by simp
qed

text \<open>
  C9, amended. \<open>loginUser\<close> and \<open>getLockoutStatus\<close> apply the same comparison,
  \<open>lockoutUntil > now\<close>: when it holds both report the lockout with the same remaining
  seconds; when it does not, the instant \<open>now = lockoutUntil\<close> included,
  \<open>getLockoutStatus\<close> reports unlocked and \<open>loginUser\<close> does not return the lockout
  rejection.
\<close>

theorem same_comparison:
  assumes "getSecurityState ls = Inr st"
  shows "(now < lockoutUntil st \<longrightarrow>
            getLockoutStatus now ls =
              Inr \<lparr>isLocked = True, remaining = Math_ceil_div (lockoutUntil st - now) 1000\<rparr>
          \<and> snd (loginUser P now password ls) =
              Inr \<lparr>success = False, key = None,
                   error = Some (lit ''Account locked. Try again in '' @
                                 String_int (Math_ceil_div (lockoutUntil st - now) 1000) @
                                 lit '' seconds.'')\<rparr>)
       \<and> (lockoutUntil st \<le> now \<longrightarrow>
            getLockoutStatus now ls = Inr \<lparr>isLocked = False, remaining = 0\<rparr>
          \<and> snd (loginUser P now password ls) \<noteq>
              Inr \<lparr>success = False, key = None,
                   error = Some (lit ''Account locked. Try again in '' @ r)\<rparr>)"
proof (intro conjI impI)
  assume l: "now < lockoutUntil st"
  from getLockoutStatus_locked [OF assms l]
  show "getLockoutStatus now ls =
          Inr \<lparr>isLocked = True, remaining = Math_ceil_div (lockoutUntil st - now) 1000\<rparr>" .
  from loginUser_locked [OF assms l]
  show "snd (loginUser P now password ls) =
          Inr \<lparr>success = False, key = None,
               error = Some (lit ''Account locked. Try again in '' @
                             String_int (Math_ceil_div (lockoutUntil st - now) 1000) @
                             lit '' seconds.'')\<rparr>"
    by simp
next
  assume u: "lockoutUntil st \<le> now"
  from getLockoutStatus_unlocked [OF assms u]
  show "getLockoutStatus now ls = Inr \<lparr>isLocked = False, remaining = 0\<rparr>" .
  from loginUser_not_locked [OF assms u]
  show "snd (loginUser P now password ls) \<noteq>
          Inr \<lparr>success = False, key = None,
               error = Some (lit ''Account locked. Try again in '' @ r)\<rparr>" .
qed

theorem same_comparison_witness:
  "getLockoutStatus 30999 locked_vault = Inr \<lparr>isLocked = True, remaining = 1\<rparr>
   \<and> snd (loginUser example_platform 30999 (lit ''CorrectHorse1'') locked_vault) =
       Inr \<lparr>success = False, key = None,
            error = Some (lit ''Account locked. Try again in 1 seconds.'')\<rparr>
   \<and> getLockoutStatus 31000 locked_vault = Inr \<lparr>isLocked = False, remaining = 0\<rparr>
   \<and> snd (loginUser example_platform 31000 (lit ''CorrectHorse1'') locked_vault) \<noteq>
       Inr \<lparr>success = False, key = None,
            error = Some (lit ''Account locked. Try again in 0 seconds.'')\<rparr>"
proof -
  have l: "(30999::int) < lockoutUntil locked_state"
    and u: "lockoutUntil locked_state \<le> 31000"
    and r: "Math_ceil_div (lockoutUntil locked_state - 30999) 1000 = 1"
    by (simp_all add: locked_state_def Math_ceil_div_def)
  have s: "String_int 1 = lit ''1''"
    by (simp add: String_int_def String_nat.simps lit_def)
  from same_comparison [OF locked_state_read, where now = 30999 and P = example_platform
      and password = "lit ''CorrectHorse1''"] l r s
  have a: "getLockoutStatus 30999 locked_vault = Inr \<lparr>isLocked = True, remaining = 1\<rparr>
   \<and> snd (loginUser example_platform 30999 (lit ''CorrectHorse1'') locked_vault) =
       Inr \<lparr>success = False, key = None,
            error = Some (lit ''Account locked. Try again in 1 seconds.'')\<rparr>"
    by (simp add: lit_def)
  from same_comparison [OF locked_state_read, where now = 31000 and P = example_platform
      and password = "lit ''CorrectHorse1''" and r = "lit ''0 seconds.''"] u
  have b: "getLockoutStatus 31000 locked_vault = Inr \<lparr>isLocked = False, remaining = 0\<rparr>
   \<and> snd (loginUser example_platform 31000 (lit ''CorrectHorse1'') locked_vault) \<noteq>
       Inr \<lparr>success = False, key = None,
            error = Some (lit ''Account locked. Try again in 0 seconds.'')\<rparr>"
    by (simp add: lit_def)
  from a b show ?thesis by simp
qed

section \<open>Registration\<close>

text \<open>
  C7. \<open>registerUser\<close> takes the next 16 bytes of the entropy source, which it leaves
  advanced by 16; the salt is their base64 text, which decodes to these 16 bytes. It
  computes \<open>authHash = hashPassword(password, salt)\<close>, stores the metadata with salt and
  hash, an empty entry list and the zeroed \<open>SecurityState\<close> through \<open>initVault\<close>, each
  under its key of the storage, and returns \<open>deriveKey(password, salt)\<close>, which is the key PBKDF2 derives from the
  password and the 16 bytes.
\<close>

theorem register_user:
  assumes "getRandomValues 16 src = (bytes, src')"
    and "registerUser P src password ls = (ls', src2, r)"
  shows "bytes = map src [0..<16] \<and> length bytes = 16
       \<and> src' = (\<lambda>i. src (i + 16)) \<and> src2 = src'
       \<and> generateSalt src = (Inr (b64_encode (map unat bytes)), src')
       \<and> base64ToBuffer (b64_encode (map unat bytes)) = Inr bytes
       \<and> (\<exists>h. hashPassword P password (b64_encode (map unat bytes)) = Inr h
              \<and> ls' = initVault \<lparr>salt = b64_encode (map unat bytes), authHash = h\<rparr> ls
              \<and> secure_vault_metadata ls' =
                  Some (Json \<lparr>salt = b64_encode (map unat bytes), authHash = h\<rparr>)
              \<and> getMetadata ls' = Inr (Some \<lparr>salt = b64_encode (map unat bytes), authHash = h\<rparr>))
       \<and> secure_vault_entries ls' = Some (Json [])
       \<and> secure_vault_attempts ls' = Some (Json \<lparr>count = 0, lockoutUntil = 0, logs = []\<rparr>)
       \<and> getEntries ls' = Inr []
       \<and> getSecurityState ls' = Inr \<lparr>count = 0, lockoutUntil = 0, logs = []\<rparr>
       \<and> hasVault ls'
       \<and> r = deriveKey P password (b64_encode (map unat bytes))
       \<and> r = Inr (CryptoKey (pbkdf2 P (TextEncoder_encode password) bytes 100000 256))"
proof -
  let ?s = "b64_encode (map unat bytes)"
  let ?h = "b64_encode (map unat (sha256 P (TextEncoder_encode (password @ ?s))))"
  from assms(1) have b: "bytes = map src [0..<16]" and s: "src' = (\<lambda>i. src (i + 16))"
    by (simp_all add: getRandomValues_def)
  from b have len: "length bytes = 16" by simp
  have g: "generateSalt src = (Inr ?s, src')"
    using assms(1) by (simp add: generateSalt_def bufferToBase64_eq)
  have h: "hashPassword P password ?s = Inr ?h" by (rule hashPassword_eq)
  from assms(2) g h
  have l: "ls' = initVault \<lparr>salt = ?s, authHash = ?h\<rparr> ls" and s2: "src2 = src'"
    and r: "r = deriveKey P password ?s"
    by (simp_all add: registerUser_def Let_def)
  from r have k: "r = Inr (CryptoKey (pbkdf2 P (TextEncoder_encode password) bytes 100000 256))"
    by (simp only: deriveKey_encoded)
  have e: "\<exists>h. hashPassword P password ?s = Inr h
              \<and> ls' = initVault \<lparr>salt = ?s, authHash = h\<rparr> ls
              \<and> secure_vault_metadata ls' = Some (Json \<lparr>salt = ?s, authHash = h\<rparr>)
              \<and> getMetadata ls' = Inr (Some \<lparr>salt = ?s, authHash = h\<rparr>)"
    using h l by (auto simp add: initVault_reads initVault_stores)
  have st: "secure_vault_entries ls' = Some (Json [])"
    "secure_vault_attempts ls' = Some (Json \<lparr>count = 0, lockoutUntil = 0, logs = []\<rparr>)"
    by (simp_all add: l initVault_stores)
  have rd: "getEntries ls' = Inr []"
    "getSecurityState ls' = Inr \<lparr>count = 0, lockoutUntil = 0, logs = []\<rparr>"
    "hasVault ls'"
    by (simp_all add: l initVault_reads)
  from b len s s2 g base64ToBuffer_encode [of bytes] e st rd r k show ?thesis
    by blast
qed

theorem register_user_witness:
  "registerUser example_platform example_entropy (lit ''CorrectHorse1'') no_vault =
     (initVault example_metadata no_vault, (\<lambda>i. example_entropy (i + 16)), Inr example_key)
   \<and> getMetadata (initVault example_metadata no_vault) = Inr (Some example_metadata)
   \<and> secure_vault_metadata (initVault example_metadata no_vault) = Some (Json example_metadata)
   \<and> secure_vault_entries (initVault example_metadata no_vault) = Some (Json [])
   \<and> secure_vault_attempts (initVault example_metadata no_vault) =
       Some (Json \<lparr>count = 0, lockoutUntil = 0, logs = []\<rparr>)"
proof -
  let ?c = "registerUser example_platform example_entropy (lit ''CorrectHorse1'') no_vault"
  have g: "getRandomValues 16 example_entropy =
             (map example_entropy [0..<16], \<lambda>i. example_entropy (i + 16))"
    by (simp add: getRandomValues_def)
  have c: "?c = (fst ?c, fst (snd ?c), snd (snd ?c))" by simp
  have m: "\<lparr>salt = salt example_metadata, authHash = authHash example_metadata\<rparr> = example_metadata"
    by simp
  from register_user [OF g c] example_hash_right example_deriveKey
  have "fst ?c = initVault example_metadata no_vault"
    and "fst (snd ?c) = (\<lambda>i. example_entropy (i + 16))"
    and "snd (snd ?c) = Inr example_key"
    and "getMetadata (fst ?c) = Inr (Some example_metadata)"
    and "secure_vault_metadata (fst ?c) = Some (Json example_metadata)"
    and "secure_vault_entries (fst ?c) = Some (Json [])"
    and "secure_vault_attempts (fst ?c) = Some (Json \<lparr>count = 0, lockoutUntil = 0, logs = []\<rparr>)"
    unfolding example_salt by (auto simp add: m)
  then show ?thesis by (simp add: prod_eq_iff)
qed

section \<open>A failed login after the lockout has expired\<close>

text \<open>
  C10. In a state whose lockout has expired (\<open>lockoutUntil \<le> now\<close>) and whose failure
  count still is three or more, one more login with a wrong password stores the count
  raised by one, four or more, and a new lockout until \<open>now + 30000\<close>, and returns the
  lockout error; \<open>getLockoutStatus\<close> then reports 30 seconds. The count goes back to zero
  only by a login whose password hash matches.
\<close>

theorem relock_after_expiry:
  assumes "getSecurityState ls = Inr st" and "3 \<le> count st" and "lockoutUntil st \<le> now"
    and "getMetadata ls = Inr (Some m)"
    and "loginUser P now password ls = (ls', r)"
  shows "(hashPassword P password (salt m) \<noteq> Inr (authHash m) \<longrightarrow>
            r = Inr \<lparr>success = False, key = None,
                     error = Some (lit ''Too many failed attempts. Account locked for 30 seconds.'')\<rparr>
          \<and> getSecurityState ls' =
                Inr \<lparr>count = count st + 1, lockoutUntil = now + 30000,
                     logs = logs st @ [\<lparr>timestamp = now, success = False\<rparr>]\<rparr>
          \<and> 4 \<le> count st + 1
          \<and> getLockoutStatus now ls' = Inr \<lparr>isLocked = True, remaining = 30\<rparr>)
       \<and> (hashPassword P password (salt m) = Inr (authHash m) \<longrightarrow>
            getSecurityState ls' =
              Inr \<lparr>count = 0, lockoutUntil = 0,
                   logs = logs st @ [\<lparr>timestamp = now, success = True\<rparr>]\<rparr>)"
proof (intro conjI impI)
  assume w: "hashPassword P password (salt m) \<noteq> Inr (authHash m)"
  let ?s = "\<lparr>count = count st + 1, lockoutUntil = now + 30000,
             logs = logs st @ [\<lparr>timestamp = now, success = False\<rparr>]\<rparr>"
  from loginUser_mismatch [OF assms(1,3,4) w] assms(2,5)
  have l: "ls' = updateSecurityState ?s ls"
    and r: "r = Inr \<lparr>success = False, key = None,
              error = Some (lit ''Too many failed attempts. Account locked for 30 seconds.'')\<rparr>"
    by (simp_all add: SecurityState_update_all String_int_30 lit_def)
  show "r = Inr \<lparr>success = False, key = None,
              error = Some (lit ''Too many failed attempts. Account locked for 30 seconds.'')\<rparr>"
    by (rule r)
  show s: "getSecurityState ls' = Inr ?s" by (simp add: l)
  show "4 \<le> count st + 1" using assms(2) by simp
  have "now < lockoutUntil ?s" by simp
  from getLockoutStatus_locked [OF s this]
  show "getLockoutStatus now ls' = Inr \<lparr>isLocked = True, remaining = 30\<rparr>"
    by (simp add: Math_ceil_div_def)
next
  assume h: "hashPassword P password (salt m) = Inr (authHash m)"
  from loginUser_match [OF assms(1,3,4) h] assms(5)
  show "getSecurityState ls' =
          Inr \<lparr>count = 0, lockoutUntil = 0,
               logs = logs st @ [\<lparr>timestamp = now, success = True\<rparr>]\<rparr>"
    by (auto simp add: SecurityState_update_all)
qed

theorem relock_after_expiry_witness:
  "loginUser example_platform 31000 (lit ''wrongpass'') locked_vault =
     (updateSecurityState
        \<lparr>count = 4, lockoutUntil = 61000,
         logs = logs locked_state @ [\<lparr>timestamp = 31000, success = False\<rparr>]\<rparr> locked_vault,
      Inr \<lparr>success = False, key = None,
           error = Some (lit ''Too many failed attempts. Account locked for 30 seconds.'')\<rparr>)
   \<and> getLockoutStatus 31000 (fst (loginUser example_platform 31000 (lit ''wrongpass'') locked_vault)) =
       Inr \<lparr>isLocked = True, remaining = 30\<rparr>
   \<and> getSecurityState (fst (loginUser example_platform 31000 (lit ''CorrectHorse1'') locked_vault)) =
       Inr \<lparr>count = 0, lockoutUntil = 0,
            logs = logs locked_state @ [\<lparr>timestamp = 31000, success = True\<rparr>]\<rparr>"
proof -
  let ?c = "loginUser example_platform 31000 (lit ''wrongpass'') locked_vault"
  let ?d = "loginUser example_platform 31000 (lit ''CorrectHorse1'') locked_vault"
  have c: "3 \<le> count locked_state" and u: "lockoutUntil locked_state \<le> 31000"
    and n: "count locked_state = 3"
    by (simp_all add: locked_state_def)
  have p: "?c = (fst ?c, snd ?c)" and q: "?d = (fst ?d, snd ?d)" by simp_all
  from loginUser_mismatch [OF locked_state_read u locked_meta example_hash_wrong]
  have f: "fst ?c = updateSecurityState
        \<lparr>count = 4, lockoutUntil = 61000,
         logs = logs locked_state @ [\<lparr>timestamp = 31000, success = False\<rparr>]\<rparr> locked_vault"
    by (simp add: n SecurityState_update_all)
  from relock_after_expiry [OF locked_state_read c u locked_meta p] example_hash_wrong
  have "snd ?c = Inr \<lparr>success = False, key = None,
           error = Some (lit ''Too many failed attempts. Account locked for 30 seconds.'')\<rparr>"
    and "getLockoutStatus 31000 (fst ?c) = Inr \<lparr>isLocked = True, remaining = 30\<rparr>"
    by simp_all
  moreover from relock_after_expiry [OF locked_state_read c u locked_meta q] example_hash_right
  have "getSecurityState (fst ?d) =
       Inr \<lparr>count = 0, lockoutUntil = 0,
            logs = logs locked_state @ [\<lparr>timestamp = 31000, success = True\<rparr>]\<rparr>"
    by simp
  ultimately show ?thesis using f by (simp add: prod_eq_iff)
qed

section \<open>Reading the store\<close>

text \<open>
  C8, as the code has it. The claim is that stored data that cannot be parsed surfaces as
  an error and never as a default. An empty string under a key cannot be parsed, and each
  read returns its default for it: the zeroed state, \<open>null\<close>, the empty list.
\<close>

theorem store_read_counterexample:
  "getSecurityState (locked_vault\<lparr>secure_vault_attempts := Some (Malformed [])\<rparr>) =
     Inr \<lparr>count = 0, lockoutUntil = 0, logs = []\<rparr>
   \<and> getMetadata (example_vault\<lparr>secure_vault_metadata := Some (Malformed [])\<rparr>) = Inr None
   \<and> getEntries (example_vault\<lparr>secure_vault_entries := Some (Malformed [])\<rparr>) = Inr []"
  by (simp add: getSecurityState_def getMetadata_def getEntries_def)

text \<open>
  C8, amended. For each read of the store: a key that is absent gives the default
  (\<open>null\<close> and \<open>hasVault\<close> false for the metadata, the empty list, the zeroed state), a
  stored \<open>JSON.stringify\<close> text gives its value, and a stored text that is not empty and
  that \<open>JSON.parse\<close> rejects makes the read raise the \<open>SyntaxError\<close> of \<open>JSON.parse\<close>.
\<close>

theorem store_reads:
  "(secure_vault_metadata ls = None \<longrightarrow> getMetadata ls = Inr None \<and> \<not> hasVault ls)
   \<and> (secure_vault_metadata ls = Some (Json m) \<longrightarrow> getMetadata ls = Inr (Some m) \<and> hasVault ls)
   \<and> (secure_vault_metadata ls = Some (Malformed s) \<and> s \<noteq> [] \<longrightarrow>
        getMetadata ls = Inl SyntaxError)
   \<and> (secure_vault_entries ls = None \<longrightarrow> getEntries ls = Inr [])
   \<and> (secure_vault_entries ls = Some (Json es) \<longrightarrow> getEntries ls = Inr es)
   \<and> (secure_vault_entries ls = Some (Malformed s) \<and> s \<noteq> [] \<longrightarrow>
        getEntries ls = Inl SyntaxError)
   \<and> (secure_vault_attempts ls = None \<longrightarrow>
        getSecurityState ls = Inr \<lparr>count = 0, lockoutUntil = 0, logs = []\<rparr>)
   \<and> (secure_vault_attempts ls = Some (Json st) \<longrightarrow> getSecurityState ls = Inr st)
   \<and> (secure_vault_attempts ls = Some (Malformed s) \<and> s \<noteq> [] \<longrightarrow>
        getSecurityState ls = Inl SyntaxError)"
  by (simp add: getSecurityState_def getMetadata_def getEntries_def hasVault_def)

theorem store_reads_witness:
  "getMetadata no_vault = Inr None \<and> \<not> hasVault no_vault
   \<and> getMetadata example_vault = Inr (Some example_metadata) \<and> hasVault example_vault
   \<and> getMetadata broken_vault = Inl SyntaxError
   \<and> getEntries no_vault = Inr []
   \<and> getEntries example_vault = Inr []
   \<and> getEntries broken_vault = Inl SyntaxError
   \<and> getSecurityState no_vault = Inr \<lparr>count = 0, lockoutUntil = 0, logs = []\<rparr>
   \<and> getSecurityState locked_vault = Inr locked_state
   \<and> getSecurityState broken_vault = Inl SyntaxError"
  using store_reads [of no_vault _ "[]" _ _]
    store_reads [of example_vault example_metadata "[]" "[]" "\<lparr>count = 0, lockoutUntil = 0, logs = []\<rparr>"]
    store_reads [of locked_vault example_metadata "[]" "[]" locked_state]
    store_reads [of broken_vault _ "lit ''{''"]
    store_reads [of broken_vault _ "lit ''[1,''"]
    store_reads [of broken_vault _ "lit ''oops''"]
  by (simp add: no_vault_def example_vault_def locked_vault_def broken_vault_def lit_def)

section \<open>Encrypting and decrypting\<close>

text \<open>
  C6, as the code has it. The claim is that decrypting what \<open>encryptData\<close> returned gives
  the plaintext back, for every plaintext. \<open>TextEncoder\<close> writes an unpaired surrogate as
  \<open>U+FFFD\<close>, and \<open>TextDecoder\<close> drops a leading \<open>U+FEFF\<close>: the string \<open>[U+FEFF]\<close>
  comes back empty and the string \<open>[U+D800]\<close> comes back as \<open>[U+FFFD]\<close>.
\<close>

theorem round_trip_counterexample:
  "fst (encryptData example_platform example_entropy [65279] example_key) =
     Inr \<lparr>ciphertext = lit ''77u/Q29ycmVjdEhvcnNlMQMKERgfJi00O0JJUFdeZWwAAAADChEYHyYtNDtCSVA='',
          EncryptedData.iv = lit ''AwoRGB8mLTQ7QklQ''\<rparr>
   \<and> decryptData example_platform
       (lit ''77u/Q29ycmVjdEhvcnNlMQMKERgfJi00O0JJUFdeZWwAAAADChEYHyYtNDtCSVA='')
       (lit ''AwoRGB8mLTQ7QklQ'') example_key = Inr []
   \<and> fst (encryptData example_platform example_entropy [55296] example_key) =
     Inr \<lparr>ciphertext = lit ''77+9Q29ycmVjdEhvcnNlMQMKERgfJi00O0JJUFdeZWwAAAADChEYHyYtNDtCSVA='',
          EncryptedData.iv = lit ''AwoRGB8mLTQ7QklQ''\<rparr>
   \<and> decryptData example_platform
       (lit ''77+9Q29ycmVjdEhvcnNlMQMKERgfJi00O0JJUFdeZWwAAAADChEYHyYtNDtCSVA='')
       (lit ''AwoRGB8mLTQ7QklQ'') example_key = Inr [65533]"
  using example_encrypt_BOM example_decrypt_BOM example_encrypt_lone example_decrypt_lone
  by (intro conjI)

text \<open>
  C6, amended. On a platform whose AES-GCM decryption returns what was encrypted under
  the same key and IV, for every key and every plaintext that is well formed and does not
  start with \<open>U+FEFF\<close>: \<open>encryptData\<close> returns a ciphertext and an IV, and \<open>decryptData\<close>
  of these two with the same key returns the plaintext.
\<close>

theorem encrypt_decrypt_round_trip:
  assumes aead: "\<forall>k n d. aes_gcm_decrypt P k n (aes_gcm_encrypt P k n d) = Some d"
    and wf: "isWellFormed t" and bom: "t = [] \<or> hd t \<noteq> 65279"
  shows "\<exists>e. fst (encryptData P src t k) = Inr e
             \<and> decryptData P (ciphertext e) (EncryptedData.iv e) k = Inr t"
proof -
  let ?nonce = "fst (getRandomValues 12 src)"
  let ?ct = "aes_gcm_encrypt P (raw k) ?nonce (TextEncoder_encode t)"
  let ?e = "\<lparr>ciphertext = b64_encode (map unat ?ct), EncryptedData.iv = b64_encode (map unat ?nonce)\<rparr>"
  have e: "fst (encryptData P src t k) = Inr ?e"
    by (simp add: encryptData_def bufferToBase64_eq Let_def split_beta)
  from aead have "aes_gcm_decrypt P (raw k) ?nonce ?ct = Some (TextEncoder_encode t)"
    by blast
  then have "decryptData P (ciphertext ?e) (EncryptedData.iv ?e) k =
               Inr (TextDecoder_decode (TextEncoder_encode t))"
    by (simp add: decryptData_def base64ToBuffer_encode)
  with text_round_trip [OF wf bom] e show ?thesis by simp
qed

theorem encrypt_decrypt_round_trip_witness:
  "fst (encryptData example_platform example_entropy (lit ''p@ss'') example_key) =
     Inr \<lparr>ciphertext = lit ''cEBzc0NvcnJlY3RIb3JzZTEDChEYHyYtNDtCSVBXXmVsAAAAAwoRGB8mLTQ7QklQ'',
          EncryptedData.iv = lit ''AwoRGB8mLTQ7QklQ''\<rparr>
   \<and> decryptData example_platform
       (lit ''cEBzc0NvcnJlY3RIb3JzZTEDChEYHyYtNDtCSVBXXmVsAAAAAwoRGB8mLTQ7QklQ'')
       (lit ''AwoRGB8mLTQ7QklQ'') example_key = Inr (lit ''p@ss'')"
proof -
  have wf: "isWellFormed (lit ''p@ss'')"
    by (simp add: lit_def lead_surrogate_def trail_surrogate_def)
  have bom: "lit ''p@ss'' = [] \<or> hd (lit ''p@ss'') \<noteq> 65279"
    by (simp add: lit_def)
  from encrypt_decrypt_round_trip [OF example_aead wf bom, of example_entropy example_key]
  obtain e where "fst (encryptData example_platform example_entropy (lit ''p@ss'') example_key) = Inr e"
    and "decryptData example_platform (ciphertext e) (EncryptedData.iv e) example_key = Inr (lit ''p@ss'')"
    by blast
  with example_encrypt_text show ?thesis by simp
qed

end
